theory Spec2Isabelle
  imports Complex_Main "HOL-Library.AList" "HOL-Library.Log_Nat"
begin

section \<open>Python values used by the diagnostic agent\<close>

text \<open>
  The development embeds the class \<open>DiagnosticAgentGUI\<close> of \<open>Diagnosis Agent.py\<close>
  (both copies of the file carry the same probability code), twice.

  The first embedding reads Python floats as real numbers: every product, sum and
  quotient is the exact one, the literal \<open>1e-6\<close> is the rational \<open>1 / 1000000\<close>, and
  the \<open>nan\<close> that the variance of no data is, is the value \<open>None\<close> of \<open>real option\<close>.
  Its data frame is the one the specification describes, every record with its label.
  It carries the properties that rounding cannot change.

  The second embedding, further down, rounds every operation to double precision and
  takes the frame as \<open>read_csv\<close> delivers it, label cells that are empty included. It
  carries the properties that are decided by the last bit or by such a cell.

  Exceptions are values of \<open>py_error\<close>.
\<close>

datatype py_error = KeyError | IndexError | ValueError

text \<open>
  A \<open>dict\<close> keeps its keys in insertion order; storing under a key that is present
  replaces the value in place, storing under a new key appends. That is
  \<open>AList.update\<close>.
\<close>

type_synonym ('k, 'v) dict = "('k \<times> 'v) list"

definition dict_lookup :: "('k, 'v) dict \<Rightarrow> 'k \<Rightarrow> py_error + 'v" where
  \<comment> \<open>\<open>d[k]\<close>\<close>
  "dict_lookup d k = (case map_of d k of None \<Rightarrow> Inl KeyError | Some v \<Rightarrow> Inr v)"

definition dict_get :: "('k, 'v) dict \<Rightarrow> 'k \<Rightarrow> 'v \<Rightarrow> 'v" where
  \<comment> \<open>\<open>d.get(k, default)\<close>\<close>
  "dict_get d k dflt = (case map_of d k of None \<Rightarrow> dflt | Some v \<Rightarrow> v)"

definition dict_comp :: "('k \<Rightarrow> 'v) \<Rightarrow> 'k list \<Rightarrow> ('k, 'v) dict" where
  \<comment> \<open>\<open>{k: f(k) for k in ks}\<close>\<close>
  "dict_comp f ks = foldl (\<lambda>d k. AList.update k (f k) d) [] ks"

definition to_dict :: "('k \<times> 'v) list \<Rightarrow> ('k, 'v) dict" where
  \<comment> \<open>\<open>Series.to_dict()\<close> on a series given as its (index, value) pairs\<close>
  "to_dict kvs = foldl (\<lambda>d kv. AList.update (fst kv) (snd kv) d) [] kvs"

fun unique_from :: "'a list \<Rightarrow> 'a list \<Rightarrow> 'a list" where
  "unique_from seen [] = []"
| "unique_from seen (x # xs) =
     (if x \<in> set seen then unique_from seen xs else x # unique_from (x # seen) xs)"

definition unique :: "'a list \<Rightarrow> 'a list" where
  \<comment> \<open>\<open>Series.unique()\<close>: the distinct values in order of first appearance\<close>
  "unique xs = unique_from [] xs"

definition floor_prob :: real where
  \<comment> \<open>the literal \<open>1e-6\<close>\<close>
  "floor_prob = 1 / 1000000"

definition np_var :: "real list \<Rightarrow> real option" where
  \<comment> \<open>\<open>numpy.var\<close> in exact arithmetic: the mean of the squared deviations from the mean;
      \<open>nan\<close> on no data\<close>
  "np_var xs =
     (if xs = [] then None
      else let n = real (length xs); mu = sum_list xs / n
           in Some (sum_list (map (\<lambda>x. (x - mu)\<^sup>2) xs) / n))"

definition float_gt :: "real option \<Rightarrow> real option \<Rightarrow> bool" where
  \<comment> \<open>\<open>a > b\<close> on floats: false as soon as one side is \<open>nan\<close>\<close>
  "float_gt a b = (case (a, b) of (Some x, Some y) \<Rightarrow> x > y | _ \<Rightarrow> False)"

fun max_loop :: "'k \<times> real option \<Rightarrow> ('k \<times> real option) list \<Rightarrow> 'k \<times> real option" where
  "max_loop best [] = best"
| "max_loop best (kv # rest) = max_loop (if float_gt (snd kv) (snd best) then kv else best) rest"

definition py_max_key :: "('k, real option) dict \<Rightarrow> py_error + 'k" where
  \<comment> \<open>\<open>max(d, key=d.get)\<close>: the first key whose value no later value exceeds\<close>
  "py_max_key d = (case d of [] \<Rightarrow> Inl ValueError | kv # rest \<Rightarrow> Inr (fst (max_loop kv rest)))"

section \<open>The data and the probability tables\<close>

text \<open>
  The data frame read from the CSV file: the column names, the label column last, and
  the records, each with its symptom cells in column order and its label cell.
\<close>

record dataset =
  columns :: "string list"
  rows :: "(int list \<times> string) list"

record model =
  symptoms :: "string list"
  conditions :: "string list"
  prior_probs :: "(string, real) dict"
  conditional_probs :: "(string, (string, real) dict) dict"

definition calculate_prior_probs :: "dataset \<Rightarrow> (string, real) dict" where
  \<comment> \<open>\<open>value_counts(normalize=True).to_dict()\<close>; the code reads the result by key only\<close>
  "calculate_prior_probs ds =
     (let labels = map snd (rows ds)
      in map (\<lambda>c. (c, real (count_list labels c) / real (length labels))) (unique labels))"

definition column_sums :: "nat \<Rightarrow> (int list \<times> string) list \<Rightarrow> int list" where
  \<comment> \<open>\<open>frame[symptoms].sum(axis=0)\<close>\<close>
  "column_sums n rs = map (\<lambda>j. sum_list (map (\<lambda>r. fst r ! j) rs)) [0..<n]"

definition condition_table :: "string list \<Rightarrow> (int list \<times> string) list \<Rightarrow> (string, real) dict" where
  "condition_table syms condition_data =
     to_dict (zip syms (map (\<lambda>x. real_of_int x / real (length condition_data))
                           (column_sums (length syms) condition_data)))"

definition calculate_conditional_probs ::
    "dataset \<Rightarrow> string list \<Rightarrow> string list \<Rightarrow> (string, (string, real) dict) dict" where
  "calculate_conditional_probs ds syms conds =
     foldl (\<lambda>conditional_probs condition.
              AList.update condition
                (condition_table syms (filter (\<lambda>r. snd r = condition) (rows ds)))
                conditional_probs)
       [] conds"

definition init_model :: "dataset \<Rightarrow> py_error + model" where
  \<comment> \<open>the data part of \<open>__init__\<close>; \<open>columns[-1]\<close> would raise on a frame without columns,
      which \<open>read_csv\<close> does not deliver\<close>
  "init_model ds =
     (if columns ds = [] then Inl IndexError
      else let syms = butlast (columns ds);
               conds = unique (map snd (rows ds))
           in Inr \<lparr>symptoms = syms, conditions = conds,
                   prior_probs = calculate_prior_probs ds,
                   conditional_probs = calculate_conditional_probs ds syms conds\<rparr>)"

section \<open>The posterior\<close>

fun observe_loop ::
    "model \<Rightarrow> string \<Rightarrow> real \<Rightarrow> (string, int) dict \<Rightarrow> py_error + real" where
  "observe_loop m condition prob [] = Inr prob"
| "observe_loop m condition prob ((symptom, v) # rest) =
     (if v = 1 then
        (case dict_lookup (conditional_probs m) condition of
           Inl e \<Rightarrow> Inl e
         | Inr t \<Rightarrow> observe_loop m condition (prob * dict_get t symptom floor_prob) rest)
      else if v = 0 then
        (case dict_lookup (conditional_probs m) condition of
           Inl e \<Rightarrow> Inl e
         | Inr t \<Rightarrow> observe_loop m condition (prob * (1 - dict_get t symptom floor_prob)) rest)
      else observe_loop m condition prob rest)"

definition condition_score :: "model \<Rightarrow> (string, int) dict \<Rightarrow> string \<Rightarrow> py_error + real" where
  "condition_score m observed condition =
     (case dict_lookup (prior_probs m) condition of
        Inl e \<Rightarrow> Inl e
      | Inr prior \<Rightarrow> observe_loop m condition prior observed)"

fun score_loop ::
    "model \<Rightarrow> (string, int) dict \<Rightarrow> string list \<Rightarrow> (string, real) dict \<Rightarrow>
     py_error + (string, real) dict" where
  "score_loop m observed [] probabilities = Inr probabilities"
| "score_loop m observed (condition # rest) probabilities =
     (case condition_score m observed condition of
        Inl e \<Rightarrow> Inl e
      | Inr prob \<Rightarrow> score_loop m observed rest (AList.update condition prob probabilities))"

definition infer_condition :: "model \<Rightarrow> (string, int) dict \<Rightarrow> py_error + (string, real) dict" where
  "infer_condition m observed =
     (case score_loop m observed (conditions m) [] of
        Inl e \<Rightarrow> Inl e
      | Inr probabilities \<Rightarrow>
          let total_prob = sum_list (map snd probabilities)
          in if total_prob = 0
             then Inr (dict_comp (\<lambda>condition. 1 / real (length (conditions m))) (conditions m))
             else Inr (map (\<lambda>(condition, prob). (condition, prob / total_prob)) probabilities))"

section \<open>The next question\<close>

fun column_loop :: "model \<Rightarrow> string \<Rightarrow> string list \<Rightarrow> py_error + real list" where
  \<comment> \<open>\<open>[conditional_probs[cond].get(symptom, 0) for cond in conds]\<close>\<close>
  "column_loop m symptom [] = Inr []"
| "column_loop m symptom (cond # rest) =
     (case dict_lookup (conditional_probs m) cond of
        Inl e \<Rightarrow> Inl e
      | Inr t \<Rightarrow>
          (case column_loop m symptom rest of
             Inl e \<Rightarrow> Inl e
           | Inr vs \<Rightarrow> Inr (dict_get t symptom 0 # vs)))"

fun variance_loop ::
    "model \<Rightarrow> string list \<Rightarrow> (string, real option) dict \<Rightarrow>
     py_error + (string, real option) dict" where
  "variance_loop m [] symptom_variance = Inr symptom_variance"
| "variance_loop m (symptom # rest) symptom_variance =
     (case column_loop m symptom (conditions m) of
        Inl e \<Rightarrow> Inl e
      | Inr vs \<Rightarrow> variance_loop m rest (AList.update symptom (np_var vs) symptom_variance))"

definition select_next_question :: "model \<Rightarrow> string set \<Rightarrow> py_error + string option" where
  "select_next_question m asked_symptoms =
     (let remaining_symptoms = filter (\<lambda>symptom. symptom \<notin> asked_symptoms) (symptoms m)
      in if remaining_symptoms = [] then Inr None
         else (case variance_loop m remaining_symptoms [] of
                 Inl e \<Rightarrow> Inl e
               | Inr symptom_variance \<Rightarrow>
                   (case py_max_key symptom_variance of
                      Inl e \<Rightarrow> Inl e
                    | Inr s \<Rightarrow> Inr (Some s))))"

section \<open>The session\<close>

text \<open>
  The part of the window's state that the answers change: the two collections kept by
  \<open>__init__\<close> and whether each button is disabled. A call returns the state it leaves
  behind and the exception it raised, if any: an exception raised after the answer was
  stored leaves the answer stored.
\<close>

record session =
  observed_symptoms :: "(string, int) dict"
  asked_symptoms :: "string set"
  yes_disabled :: bool
  no_disabled :: bool
  end_disabled :: bool

definition show_final_diagnosis :: "model \<Rightarrow> session \<Rightarrow> session \<times> py_error option" where
  "show_final_diagnosis m s =
     (let s' = s\<lparr>yes_disabled := True, no_disabled := True, end_disabled := True\<rparr>
      in case infer_condition m (observed_symptoms s') of
           Inl e \<Rightarrow> (s', Some e)
         | Inr probabilities \<Rightarrow> (s', None))"

definition ask_next_question :: "model \<Rightarrow> session \<Rightarrow> session \<times> py_error option" where
  "ask_next_question m s =
     (case select_next_question m (asked_symptoms s) of
        Inl e \<Rightarrow> (s, Some e)
      | Inr None \<Rightarrow> show_final_diagnosis m s
      | Inr (Some next_symptom) \<Rightarrow> (s, None))"

definition record_symptom :: "model \<Rightarrow> session \<Rightarrow> int \<Rightarrow> session \<times> py_error option" where
  "record_symptom m s v =
     (if yes_disabled s \<or> no_disabled s then (s, None)
      else case select_next_question m (asked_symptoms s) of
             Inl e \<Rightarrow> (s, Some e)
           | Inr None \<Rightarrow> (s, None)
           | Inr (Some current_symptom) \<Rightarrow>
               (let s' = s\<lparr>observed_symptoms :=
                              AList.update current_symptom v (observed_symptoms s),
                            asked_symptoms := insert current_symptom (asked_symptoms s)\<rparr>
                in case infer_condition m (observed_symptoms s') of
                     Inl e \<Rightarrow> (s', Some e)
                   | Inr probabilities \<Rightarrow>
                       (case py_max_key (map (\<lambda>(c, p). (c, Some p)) probabilities) of
                          Inl e \<Rightarrow> (s', Some e)
                        | Inr most_likely_condition \<Rightarrow> ask_next_question m s')))"

definition init_session :: "model \<Rightarrow> session \<times> py_error option" where
  \<comment> \<open>the session part of \<open>__init__\<close>: empty collections, live buttons, first question\<close>
  "init_session m =
     ask_next_question m
       \<lparr>observed_symptoms = [], asked_symptoms = {},
        yes_disabled = False, no_disabled = False, end_disabled = False\<rparr>"

text \<open>What the user can do to a window: press Yes or No, or end the questionnaire.\<close>

datatype event = Answer int | Finish

fun handle :: "model \<Rightarrow> session \<Rightarrow> event \<Rightarrow> session" where
  "handle m s (Answer v) = fst (record_symptom m s v)"
| "handle m s Finish = fst (show_final_diagnosis m s)"

section \<open>Terms of the specification\<close>

text \<open>
  The specification's formula for one factor of the score: the conditional probability
  of the symptom when the answer is 1, one minus it otherwise, with \<open>1e-6\<close> standing
  in for a probability the table does not have.
\<close>

definition spec_factor :: "(string, real) dict \<Rightarrow> string \<times> int \<Rightarrow> real" where
  "spec_factor t sv =
     (let q = (case map_of t (fst sv) of None \<Rightarrow> floor_prob | Some q \<Rightarrow> q)
      in if snd sv = 1 then q else 1 - q)"

definition spec_score :: "real \<Rightarrow> (string, real) dict \<Rightarrow> (string, int) dict \<Rightarrow> real" where
  "spec_score prior t observed = prior * prod_list (map (spec_factor t) observed)"

text \<open>The factor the loop of \<open>infer_condition\<close> multiplies in for one observation.\<close>

definition code_factor :: "(string, real) dict \<Rightarrow> string \<times> int \<Rightarrow> real" where
  "code_factor t sv =
     (if snd sv = 1 then dict_get t (fst sv) floor_prob
      else if snd sv = 0 then 1 - dict_get t (fst sv) floor_prob
      else 1)"

definition binary_answer :: "string \<times> int \<Rightarrow> bool" where
  "binary_answer sv = (snd sv = 0 \<or> snd sv = 1)"

text \<open>
  The example of the specification: symptoms A and B, three records of condition X with
  A present and B absent, one record of condition Y with A absent and B present.
\<close>

definition example_dataset :: dataset where
  "example_dataset =
     \<lparr>columns = [''A'', ''B'', ''label''],
      rows = [([1, 0], ''X''), ([1, 0], ''X''), ([1, 0], ''X''), ([0, 1], ''Y'')]\<rparr>"

definition example_model :: model where
  "example_model =
     \<lparr>symptoms = [''A'', ''B''], conditions = [''X'', ''Y''],
      prior_probs = [(''X'', 3 / 4), (''Y'', 1 / 4)],
      conditional_probs = [(''X'', [(''A'', 1), (''B'', 0)]), (''Y'', [(''A'', 0), (''B'', 1)])]\<rparr>"

text \<open>
  The invariants of a data frame that the specification assumes: every record has one
  cell for every symptom column, and every cell is 0 or 1.
\<close>

definition binary_dataset :: "dataset \<Rightarrow> bool" where
  "binary_dataset ds =
     list_all (\<lambda>r. length (fst r) = length (columns ds) - 1 \<and>
                    list_all (\<lambda>x. x = 0 \<or> x = 1) (fst r)) (rows ds)"

text \<open>
  The entries of the tables of a model, and the score of a condition, written directly
  from the data frame.
\<close>

definition dataset_prior :: "dataset \<Rightarrow> string \<Rightarrow> real" where
  "dataset_prior ds c =
     real (count_list (map snd (rows ds)) c) / real (length (rows ds))"

definition dataset_table :: "dataset \<Rightarrow> string \<Rightarrow> (string, real) dict" where
  "dataset_table ds c =
     condition_table (butlast (columns ds)) (filter (\<lambda>r. snd r = c) (rows ds))"

definition dataset_score :: "dataset \<Rightarrow> (string, int) dict \<Rightarrow> string \<Rightarrow> real" where
  "dataset_score ds observed c =
     dataset_prior ds c * prod_list (map (code_factor (dataset_table ds c)) observed)"

text \<open>
  What the specification asks of the two collections of a session, and when an answer is
  accepted: the buttons are live and a question is pending.
\<close>

definition session_invariant :: "model \<Rightarrow> session \<Rightarrow> bool" where
  "session_invariant m s =
     (asked_symptoms s \<subseteq> set (symptoms m) \<and>
      asked_symptoms s = set (map fst (observed_symptoms s)))"

definition accepted :: "model \<Rightarrow> session \<Rightarrow> bool" where
  "accepted m s =
     (\<not> yes_disabled s \<and> \<not> no_disabled s \<and>
      (case select_next_question m (asked_symptoms s) of
         Inr (Some current_symptom) \<Rightarrow> True
       | _ \<Rightarrow> False))"

text \<open>Two sessions on the example: a fresh one, and one ended before any answer.\<close>

definition example_start :: session where
  "example_start =
     \<lparr>observed_symptoms = [], asked_symptoms = {},
      yes_disabled = False, no_disabled = False, end_disabled = False\<rparr>"

definition example_finished :: session where
  "example_finished =
     \<lparr>observed_symptoms = [], asked_symptoms = {},
      yes_disabled = True, no_disabled = True, end_disabled = True\<rparr>"

section \<open>Double precision\<close>

text \<open>
  A second embedding follows the same functions bit by bit. A float is a real number
  that a binary64 holds, or \<open>None\<close> for \<open>nan\<close>; every operation rounds its exact result
  to the nearest binary64, ties to even. (With 0/1 cells every quantity of the program
  lies between 0 and 1; overflow to infinity is not modelled.) A label cell may be
  empty: pandas reads it as \<open>nan\<close>, here \<open>None\<close>.
\<close>

type_synonym float = "real option"

definition float_exponent :: "real \<Rightarrow> int" where
  \<comment> \<open>the \<open>e\<close> with \<open>2 ^ e \<le> |x| < 2 ^ (e + 1)\<close>, for \<open>x\<close> other than 0\<close>
  "float_exponent x =
     (let a = \<bar>x\<bar>
      in if 1 \<le> a then bitlen \<lfloor>a\<rfloor> - 1 else - bitlen (\<lceil>1 / a\<rceil> - 1))"

definition round_half_even :: "real \<Rightarrow> int" where
  "round_half_even y =
     (let f = \<lfloor>y\<rfloor>; d = y - of_int f
      in if d < 1 / 2 then f else if 1 / 2 < d then f + 1
         else if even f then f else f + 1)"

definition round_double :: "real \<Rightarrow> real" where
  \<comment> \<open>53 significant bits; below \<open>2 ^ -1022\<close> the spacing stays \<open>2 ^ -1074\<close>\<close>
  "round_double x =
     (if x = 0 then 0
      else let u = 2 powi (max (float_exponent x) (- 1022) - 52)
           in of_int (round_half_even (x / u)) * u)"

definition float_op :: "(real \<Rightarrow> real \<Rightarrow> real) \<Rightarrow> float \<Rightarrow> float \<Rightarrow> float" where
  "float_op f a b =
     (case a of None \<Rightarrow> None
      | Some x \<Rightarrow> (case b of None \<Rightarrow> None | Some y \<Rightarrow> Some (round_double (f x y))))"

definition fadd :: "float \<Rightarrow> float \<Rightarrow> float" where
  "fadd = float_op (+)"

definition fsub :: "float \<Rightarrow> float \<Rightarrow> float" where
  "fsub = float_op (-)"

definition fmul :: "float \<Rightarrow> float \<Rightarrow> float" where
  "fmul = float_op (*)"

definition fdiv :: "float \<Rightarrow> float \<Rightarrow> float" where
  \<comment> \<open>the program divides by zero only in \<open>0 / 0\<close>, which is \<open>nan\<close>\<close>
  "fdiv a b = (if b = Some 0 then None else float_op (/) a b)"

definition float_abs_ge :: "float \<Rightarrow> float \<Rightarrow> bool" where
  \<comment> \<open>\<open>fabs(a) >= fabs(b)\<close>\<close>
  "float_abs_ge a b = (case (a, b) of (Some x, Some y) \<Rightarrow> \<bar>y\<bar> \<le> \<bar>x\<bar> | _ \<Rightarrow> False)"

text \<open>
  The built-in \<open>sum\<close> of a list of floats. CPython adds them in order up to version
  3.11; from 3.12 on it carries Neumaier's compensation along and adds it at the end.
\<close>

definition sum_in_order :: "float list \<Rightarrow> float" where
  "sum_in_order xs = foldl fadd (Some 0) xs"

fun compensate :: "float \<Rightarrow> float \<Rightarrow> float list \<Rightarrow> float \<times> float" where
  "compensate f_result c [] = (f_result, c)"
| "compensate f_result c (x # xs) =
     (let t = fadd f_result x
      in compensate t
           (if float_abs_ge f_result x then fadd c (fadd (fsub f_result t) x)
            else fadd c (fadd (fsub x t) f_result))
           xs)"

definition sum_compensated :: "float list \<Rightarrow> float" where
  "sum_compensated xs =
     (case xs of
        [] \<Rightarrow> Some 0
      | x # rest \<Rightarrow>
          (case compensate x (Some 0) rest of
             (f_result, c) \<Rightarrow>
               (case c of
                  None \<Rightarrow> f_result
                | Some cv \<Rightarrow> if cv = 0 then f_result else fadd f_result c)))"

text \<open>
  \<open>numpy.add.reduce\<close> on a float array: in order for fewer than eight values, in eight
  lanes up to 128 values, and by halves beyond.
\<close>

function add_lanes :: "float list \<Rightarrow> float list \<Rightarrow> float list" where
  "add_lanes r xs =
     (if length xs < 8 then r else add_lanes (map2 fadd r (take 8 xs)) (drop 8 xs))"
  by pat_completeness auto
termination
  by (relation "measure (\<lambda>(r, xs). length xs)") auto

definition block_sum :: "float list \<Rightarrow> float" where
  "block_sum a =
     (let n = length a;
          r = add_lanes (take 8 a) (take (n - n mod 8 - 8) (drop 8 a));
          res = fadd (fadd (fadd (r ! 0) (r ! 1)) (fadd (r ! 2) (r ! 3)))
                     (fadd (fadd (r ! 4) (r ! 5)) (fadd (r ! 6) (r ! 7)))
      in foldl fadd res (drop (n - n mod 8) a))"

function pairwise_sum :: "float list \<Rightarrow> float" where
  "pairwise_sum a =
     (if length a < 8 then foldl fadd (Some 0) a
      else if length a \<le> 128 then block_sum a
      else let n2 = length a div 2 - (length a div 2) mod 8
           in fadd (pairwise_sum (take n2 a)) (pairwise_sum (drop n2 a)))"
  by pat_completeness auto
termination
  by (relation "measure length") auto

definition fsquare :: "float \<Rightarrow> float" where
  \<comment> \<open>\<open>multiply(x, x)\<close>\<close>
  "fsquare d = fmul d d"

declare add_lanes.simps [simp del] pairwise_sum.simps [simp del]

definition np_mean :: "float list \<Rightarrow> float" where
  "np_mean xs = fdiv (pairwise_sum xs) (Some (real (length xs)))"

definition np_var_fp :: "float list \<Rightarrow> float" where
  \<comment> \<open>\<open>numpy.var\<close>: the mean of the squares of the deviations from the mean\<close>
  "np_var_fp xs = np_mean (map fsquare (map (\<lambda>a. fsub a (np_mean xs)) xs))"

section \<open>The agent in double precision\<close>

text \<open>
  The frame as \<open>read_csv\<close> delivers it: the columns but the last, the last column, and
  the records, whose label cell may be empty.
\<close>

record frame =
  symptom_columns :: "string list"
  label_column :: string
  records :: "(int list \<times> string option) list"

record agent =
  agent_symptoms :: "string list"
  agent_conditions :: "string option list"
  agent_prior_probs :: "(string option, float) dict"
  agent_conditional_probs :: "(string option, (string, float) dict) dict"

definition label_eq :: "string option \<Rightarrow> string option \<Rightarrow> bool" where
  \<comment> \<open>\<open>==\<close> on label cells: \<open>nan\<close> equals nothing\<close>
  "label_eq a b = (case (a, b) of (Some x, Some y) \<Rightarrow> x = y | _ \<Rightarrow> False)"

definition present_labels :: "frame \<Rightarrow> string list" where
  "present_labels f = concat (map (\<lambda>r. case snd r of None \<Rightarrow> [] | Some l \<Rightarrow> [l]) (records f))"

definition calculate_prior_probs_fp :: "frame \<Rightarrow> (string option, float) dict" where
  \<comment> \<open>\<open>value_counts(normalize=True)\<close> drops the empty cells, also from the total\<close>
  "calculate_prior_probs_fp f =
     (let labels = present_labels f
      in map (\<lambda>c. (Some c, fdiv (Some (real (count_list labels c)))
                               (Some (real (length labels)))))
           (unique labels))"

definition cell_sums :: "nat \<Rightarrow> int list list \<Rightarrow> int list" where
  "cell_sums n rs = map (\<lambda>j. sum_list (map (\<lambda>r. r ! j) rs)) [0..<n]"

definition condition_table_fp ::
    "string list \<Rightarrow> (int list \<times> string option) list \<Rightarrow> (string, float) dict" where
  "condition_table_fp syms condition_data =
     to_dict (zip syms (map (\<lambda>x. fdiv (Some (real_of_int x))
                                       (Some (real (length condition_data))))
                           (cell_sums (length syms) (map fst condition_data))))"

definition calculate_conditional_probs_fp ::
    "frame \<Rightarrow> string list \<Rightarrow> string option list \<Rightarrow>
     (string option, (string, float) dict) dict" where
  "calculate_conditional_probs_fp f syms conds =
     foldl (\<lambda>conditional_probs condition.
              AList.update condition
                (condition_table_fp syms
                   (filter (\<lambda>r. label_eq (snd r) condition) (records f)))
                conditional_probs)
       [] conds"

definition init_model_fp :: "frame \<Rightarrow> agent" where
  "init_model_fp f =
     (let syms = symptom_columns f;
          conds = unique (map snd (records f))
      in \<lparr>agent_symptoms = syms, agent_conditions = conds,
          agent_prior_probs = calculate_prior_probs_fp f,
          agent_conditional_probs = calculate_conditional_probs_fp f syms conds\<rparr>)"

definition floor_fp :: float where
  \<comment> \<open>the literal \<open>1e-6\<close>\<close>
  "floor_fp = Some (round_double (1 / 1000000))"

fun observe_loop_fp ::
    "agent \<Rightarrow> string option \<Rightarrow> float \<Rightarrow> (string, int) dict \<Rightarrow> py_error + float" where
  "observe_loop_fp m condition prob [] = Inr prob"
| "observe_loop_fp m condition prob ((symptom, v) # rest) =
     (if v = 1 then
        (case dict_lookup (agent_conditional_probs m) condition of
           Inl e \<Rightarrow> Inl e
         | Inr t \<Rightarrow> observe_loop_fp m condition (fmul prob (dict_get t symptom floor_fp)) rest)
      else if v = 0 then
        (case dict_lookup (agent_conditional_probs m) condition of
           Inl e \<Rightarrow> Inl e
         | Inr t \<Rightarrow>
             observe_loop_fp m condition
               (fmul prob (fsub (Some 1) (dict_get t symptom floor_fp))) rest)
      else observe_loop_fp m condition prob rest)"

definition condition_score_fp ::
    "agent \<Rightarrow> (string, int) dict \<Rightarrow> string option \<Rightarrow> py_error + float" where
  "condition_score_fp m observed condition =
     (case dict_lookup (agent_prior_probs m) condition of
        Inl e \<Rightarrow> Inl e
      | Inr prior \<Rightarrow> observe_loop_fp m condition prior observed)"

fun score_loop_fp ::
    "agent \<Rightarrow> (string, int) dict \<Rightarrow> string option list \<Rightarrow> (string option, float) dict \<Rightarrow>
     py_error + (string option, float) dict" where
  "score_loop_fp m observed [] probabilities = Inr probabilities"
| "score_loop_fp m observed (condition # rest) probabilities =
     (case condition_score_fp m observed condition of
        Inl e \<Rightarrow> Inl e
      | Inr prob \<Rightarrow> score_loop_fp m observed rest (AList.update condition prob probabilities))"

definition infer_condition_fp ::
    "(float list \<Rightarrow> float) \<Rightarrow> agent \<Rightarrow> (string, int) dict \<Rightarrow>
     py_error + (string option, float) dict" where
  \<comment> \<open>the first argument is the built-in \<open>sum\<close>\<close>
  "infer_condition_fp py_sum m observed =
     (case score_loop_fp m observed (agent_conditions m) [] of
        Inl e \<Rightarrow> Inl e
      | Inr probabilities \<Rightarrow>
          let total_prob = py_sum (map snd probabilities)
          in if total_prob = Some 0
             then Inr (dict_comp
                         (\<lambda>condition. fdiv (Some 1) (Some (real (length (agent_conditions m)))))
                         (agent_conditions m))
             else Inr (map (\<lambda>(condition, prob). (condition, fdiv prob total_prob))
                         probabilities))"

fun column_loop_fp :: "agent \<Rightarrow> string \<Rightarrow> string option list \<Rightarrow> py_error + float list" where
  "column_loop_fp m symptom [] = Inr []"
| "column_loop_fp m symptom (cond # rest) =
     (case dict_lookup (agent_conditional_probs m) cond of
        Inl e \<Rightarrow> Inl e
      | Inr t \<Rightarrow>
          (case column_loop_fp m symptom rest of
             Inl e \<Rightarrow> Inl e
           | Inr vs \<Rightarrow> Inr (dict_get t symptom (Some 0) # vs)))"

fun variance_loop_fp ::
    "agent \<Rightarrow> string list \<Rightarrow> (string, float) dict \<Rightarrow> py_error + (string, float) dict" where
  "variance_loop_fp m [] symptom_variance = Inr symptom_variance"
| "variance_loop_fp m (symptom # rest) symptom_variance =
     (case column_loop_fp m symptom (agent_conditions m) of
        Inl e \<Rightarrow> Inl e
      | Inr vs \<Rightarrow>
          variance_loop_fp m rest (AList.update symptom (np_var_fp vs) symptom_variance))"

definition select_next_question_fp :: "agent \<Rightarrow> string set \<Rightarrow> py_error + string option" where
  "select_next_question_fp m asked =
     (let remaining_symptoms = filter (\<lambda>symptom. symptom \<notin> asked) (agent_symptoms m)
      in if remaining_symptoms = [] then Inr None
         else (case variance_loop_fp m remaining_symptoms [] of
                 Inl e \<Rightarrow> Inl e
               | Inr symptom_variance \<Rightarrow>
                   (case py_max_key symptom_variance of
                      Inl e \<Rightarrow> Inl e
                    | Inr s \<Rightarrow> Inr (Some s))))"


text \<open>The prior of a condition, as the dictionary has it.\<close>

definition prior_of :: "agent \<Rightarrow> string option \<Rightarrow> float" where
  "prior_of m c = dict_get (agent_prior_probs m) c None"

text \<open>
  The column of a symptom across the conditions, a missing entry counting as 0, and the
  variance of it as \<open>numpy.var\<close> computes it.
\<close>

definition symptom_column :: "agent \<Rightarrow> string \<Rightarrow> float list" where
  "symptom_column m s =
     map (\<lambda>c. case map_of (agent_conditional_probs m) c of
                 None \<Rightarrow> Some 0
               | Some t \<Rightarrow> dict_get t s (Some 0))
       (agent_conditions m)"

definition computed_variance :: "agent \<Rightarrow> string \<Rightarrow> float" where
  "computed_variance m s = np_var_fp (symptom_column m s)"

text \<open>The population variance of the specification, in exact arithmetic.\<close>

definition population_variance :: "real list \<Rightarrow> real" where
  "population_variance xs =
     (let n = real (length xs); mean = sum_list xs / n
      in (\<Sum>x\<leftarrow>xs. (x - mean)\<^sup>2) / n)"

text \<open>
  Frames: one without records, one with the label column only, one with an empty label
  cell, one whose two symptoms have the same values in another order, and one with 15,
  6 and 1 records of three conditions.
\<close>

definition no_records_frame :: frame where
  "no_records_frame =
     \<lparr>symptom_columns = [''A'', ''B''], label_column = ''label'', records = []\<rparr>"

definition label_only_frame :: frame where
  "label_only_frame =
     \<lparr>symptom_columns = [], label_column = ''label'', records = [([], Some ''X'')]\<rparr>"

definition missing_label_frame :: frame where
  "missing_label_frame =
     \<lparr>symptom_columns = [''A''], label_column = ''label'',
      records = [([1], Some ''X''), ([0], None)]\<rparr>"

definition permuted_frame :: frame where
  "permuted_frame =
     \<lparr>symptom_columns = [''A'', ''B''], label_column = ''label'',
      records = [([0, 1], Some ''X''),
                 ([1, 0], Some ''Y''), ([1, 0], Some ''Y''), ([0, 0], Some ''Y''),
                 ([1, 1], Some ''Z''), ([1, 1], Some ''Z''), ([1, 0], Some ''Z'')]\<rparr>"

definition skewed_frame :: frame where
  "skewed_frame =
     \<lparr>symptom_columns = [], label_column = ''label'',
      records = [([], Some ''X''), ([], Some ''X''), ([], Some ''X''), ([], Some ''X''),
                 ([], Some ''X''), ([], Some ''X''), ([], Some ''X''), ([], Some ''X''),
                 ([], Some ''X''), ([], Some ''X''), ([], Some ''X''), ([], Some ''X''),
                 ([], Some ''X''), ([], Some ''X''), ([], Some ''X''), ([], Some ''Y''),
                 ([], Some ''Y''), ([], Some ''Y''), ([], Some ''Y''), ([], Some ''Y''),
                 ([], Some ''Y''), ([], Some ''Z'')]\<rparr>"

section \<open>The example\<close>

lemma init_model_example: "init_model example_dataset = Inr example_model"
  by (simp add: init_model_def example_dataset_def example_model_def unique_def
      calculate_prior_probs_def calculate_conditional_probs_def condition_table_def
      column_sums_def to_dict_def upt_rec)

section \<open>Dictionaries and lists\<close>

lemma update_new_key: "k \<notin> fst ` set d \<Longrightarrow> AList.update k v d = d @ [(k, v)]"
  by (induction d) auto

lemma update_keys_set: "fst ` set (AList.update k v d) = insert k (fst ` set d)"
  by (simp add: AList.dom_update)

lemma unique_from_seen_cong:
  "set seen = set seen' \<Longrightarrow> unique_from seen xs = unique_from seen' xs"
proof (induction xs arbitrary: seen seen')
  case Nil
  then show ?case by simp
next
  case (Cons x xs)
  have mem: "x \<in> set seen \<longleftrightarrow> x \<in> set seen'"
    using Cons.prems by simp
  have ext: "set (x # seen) = set (x # seen')"
    using Cons.prems by simp
  show ?case
    using mem Cons.IH [OF Cons.prems] Cons.IH [OF ext] by simp
qed

lemma set_unique_from: "set (unique_from seen xs) = set xs - set seen"
  by (induction xs arbitrary: seen) auto

lemma distinct_unique_from: "distinct (unique_from seen xs)"
  by (induction xs arbitrary: seen) (auto simp: set_unique_from)

lemma set_unique: "set (unique xs) = set xs"
  by (simp add: unique_def set_unique_from)

lemma distinct_unique: "distinct (unique xs)"
  by (simp add: unique_def distinct_unique_from)

lemma fold_update_keyed:
  "foldl (\<lambda>d k. AList.update k (f k) d) (map (\<lambda>k. (k, f k)) ys) xs =
   map (\<lambda>k. (k, f k)) (ys @ unique_from ys xs)"
proof (induction xs arbitrary: ys)
  case Nil
  then show ?case by simp
next
  case (Cons x xs)
  show ?case
  proof (cases "x \<in> set ys")
    case True
    then have "map_of (map (\<lambda>k. (k, f k)) ys) x = Some (f x)"
      by (induction ys) auto
    then have "AList.update x (f x) (map (\<lambda>k. (k, f k)) ys) = map (\<lambda>k. (k, f k)) ys"
      by (rule AList.update_triv)
    with True Cons show ?thesis by simp
  next
    case False
    then have "x \<notin> fst ` set (map (\<lambda>k. (k, f k)) ys)"
      by (auto simp: image_iff)
    then have "AList.update x (f x) (map (\<lambda>k. (k, f k)) ys) = map (\<lambda>k. (k, f k)) (ys @ [x])"
      by (simp add: update_new_key)
    moreover have "unique_from (ys @ [x]) xs = unique_from (x # ys) xs"
      by (rule unique_from_seen_cong) auto
    ultimately show ?thesis
      using False Cons [of "ys @ [x]"] by simp
  qed
qed

lemma dict_comp_unique: "dict_comp f ks = map (\<lambda>k. (k, f k)) (unique ks)"
  using fold_update_keyed [of f "[]" ks] by (simp add: dict_comp_def unique_def)

lemma unique_from_distinct:
  "distinct xs \<Longrightarrow> set xs \<inter> set seen = {} \<Longrightarrow> unique_from seen xs = xs"
proof (induction xs arbitrary: seen)
  case Nil
  then show ?case by simp
next
  case (Cons x xs)
  from Cons.prems have "x \<notin> set seen" by auto
  moreover from Cons.prems have "distinct xs" "set xs \<inter> set (x # seen) = {}" by auto
  ultimately show ?case using Cons.IH by simp
qed

lemma unique_distinct: "distinct xs \<Longrightarrow> unique xs = xs"
  by (simp add: unique_def unique_from_distinct)

lemma map_of_keyed: "c \<in> set cs \<Longrightarrow> map_of (map (\<lambda>k. (k, f k)) cs) c = Some (f c)"
  by (induction cs) auto

lemma fold_update_distinct:
  "distinct cs \<Longrightarrow>
   foldl (\<lambda>d k. AList.update k (f k) d) [] cs = map (\<lambda>k. (k, f k)) cs"
  using fold_update_keyed [of f "[]" cs] by (simp add: unique_from_distinct)

lemma set_update_subset: "set (AList.update k v d) \<subseteq> insert (k, v) (set d)"
  by (induction d) auto

lemma set_fold_update_subset:
  "set (foldl (\<lambda>d kv. AList.update (fst kv) (snd kv) d) acc kvs) \<subseteq> set acc \<union> set kvs"
proof (induction kvs arbitrary: acc)
  case Nil
  then show ?case by simp
next
  case (Cons kv kvs)
  have "set (foldl (\<lambda>d kv. AList.update (fst kv) (snd kv) d) (AList.update (fst kv) (snd kv) acc) kvs)
          \<subseteq> set (AList.update (fst kv) (snd kv) acc) \<union> set kvs"
    by (rule Cons.IH)
  also have "\<dots> \<subseteq> insert kv (set acc) \<union> set kvs"
    using set_update_subset [of "fst kv" "snd kv" acc] by auto
  finally show ?case by auto
qed

lemma set_to_dict_subset: "set (to_dict kvs) \<subseteq> set kvs"
  using set_fold_update_subset [of "[]" kvs] by (simp add: to_dict_def)

lemma sum_list_divide_const:
  fixes f :: "'a \<Rightarrow> real"
  shows "(\<Sum>x\<leftarrow>xs. f x / t) = (\<Sum>x\<leftarrow>xs. f x) / t"
  by (induction xs) (simp_all add: add_divide_distrib)

section \<open>The maximum\<close>

lemma max_loop_member: "max_loop best xs \<in> set (best # xs)"
  by (induction xs arbitrary: best) auto

lemma py_max_key_member: "py_max_key d = Inr k \<Longrightarrow> k \<in> fst ` set d"
  using max_loop_member [of "hd d" "tl d"]
  by (cases d) (auto simp: py_max_key_def image_iff)

lemma max_loop_first_max:
  fixes v :: "'k \<Rightarrow> real"
  defines "h \<equiv> \<lambda>k. (k, Some (v k))"
  assumes "\<forall>t \<in> set p1. v t < v b" and "\<forall>t \<in> set p2. v t \<le> v b"
  shows "\<exists>r pre post. p1 @ b # p2 @ zs = pre @ r # post \<and> max_loop (h b) (map h zs) = h r \<and>
           (\<forall>t \<in> set pre. v t < v r) \<and> (\<forall>t \<in> set post. v t \<le> v r)"
  using assms(2,3)
proof (induction zs arbitrary: p1 b p2)
  case Nil
  have "p1 @ b # p2 @ [] = p1 @ b # p2" by simp
  moreover have "max_loop (h b) (map h []) = h b" by simp
  ultimately show ?case using Nil by blast
next
  case (Cons z zs)
  show ?case
  proof (cases "v z > v b")
    case True
    have step: "max_loop (h b) (map h (z # zs)) = max_loop (h z) (map h zs)"
      using True by (simp add: h_def float_gt_def)
    have below: "\<forall>t \<in> set (p1 @ b # p2). v t < v z"
    proof
      fix t assume "t \<in> set (p1 @ b # p2)"
      then consider "t \<in> set p1" | "t = b" | "t \<in> set p2" by auto
      then show "v t < v z"
      proof cases
        case 1
        with Cons.prems(1) have "v t < v b" by simp
        with True show ?thesis by simp
      next
        case 2
        with True show ?thesis by simp
      next
        case 3
        with Cons.prems(2) have "v t \<le> v b" by simp
        with True show ?thesis by simp
      qed
    qed
    have none: "\<forall>t \<in> set []. v t \<le> v z" by simp
    from Cons.IH [OF below none] obtain r pre post where
      eq: "(p1 @ b # p2) @ z # [] @ zs = pre @ r # post" and
      r: "max_loop (h z) (map h zs) = h r"
        "\<forall>t \<in> set pre. v t < v r" "\<forall>t \<in> set post. v t \<le> v r"
      by blast
    from eq have "p1 @ b # p2 @ z # zs = pre @ r # post" by simp
    with step r show ?thesis by metis
  next
    case False
    have step: "max_loop (h b) (map h (z # zs)) = max_loop (h b) (map h zs)"
      using False by (simp add: h_def float_gt_def)
    have upto: "\<forall>t \<in> set (p2 @ [z]). v t \<le> v b"
      using Cons.prems(2) False by simp
    from Cons.IH [OF Cons.prems(1) upto] obtain r pre post where
      eq: "p1 @ b # (p2 @ [z]) @ zs = pre @ r # post" and
      r: "max_loop (h b) (map h zs) = h r"
        "\<forall>t \<in> set pre. v t < v r" "\<forall>t \<in> set post. v t \<le> v r"
      by blast
    from eq have "p1 @ b # p2 @ z # zs = pre @ r # post" by simp
    with step r show ?thesis by metis
  qed
qed

lemma takeWhile_filter_subset:
  "set (filter P (takeWhile Q xs)) \<subseteq> set (takeWhile Q (filter P xs))"
  by (induction xs) auto

lemma takeWhile_unique_from_subset:
  "set (takeWhile (\<lambda>x. x \<noteq> s) xs) - set seen \<subseteq> set (takeWhile (\<lambda>x. x \<noteq> s) (unique_from seen xs))"
proof (induction xs arbitrary: seen)
  case Nil
  then show ?case by simp
next
  case (Cons a xs)
  show ?case
  proof (cases "a = s")
    case True
    then show ?thesis by simp
  next
    case False
    show ?thesis
    proof (cases "a \<in> set seen")
      case True
      with False Cons [of seen] show ?thesis by auto
    next
      case notin: False
      with False Cons [of "a # seen"] show ?thesis by auto
    qed
  qed
qed

lemma takeWhile_split_first:
  "r \<notin> set pre \<Longrightarrow> takeWhile (\<lambda>x. x \<noteq> r) (pre @ r # post) = pre"
  by (induction pre) auto

section \<open>The score of a condition\<close>

lemma observe_loop_product:
  "dict_lookup (conditional_probs m) c = Inr t \<Longrightarrow>
   observe_loop m c prob observed = Inr (prob * prod_list (map (code_factor t) observed))"
proof (induction observed arbitrary: prob)
  case Nil
  then show ?case by simp
next
  case (Cons sv rest)
  obtain s v where sv: "sv = (s, v)" by (cases sv)
  show ?case
    using Cons by (simp add: sv code_factor_def mult.assoc)
qed

lemma code_factor_binary:
  "snd sv = 0 \<or> snd sv = 1 \<Longrightarrow> code_factor t sv = spec_factor t sv"
  by (auto simp: code_factor_def spec_factor_def dict_get_def)

text \<open>
  Claim C3. For a condition that has a prior and a row in the conditional table, and
  observations whose answers are all 0 or 1, the score that \<open>infer_condition\<close>
  computes for the condition is the prior times the product of the specification's
  factors: the conditional probability for an answer 1, one minus it for an answer 0,
  with \<open>1e-6\<close> in place of a probability that the row does not have.
\<close>

theorem condition_score_formula:
  assumes "dict_lookup (prior_probs m) c = Inr prior"
    and "dict_lookup (conditional_probs m) c = Inr t"
    and "\<forall>sv \<in> set observed. snd sv = 0 \<or> snd sv = 1"
  shows "condition_score m observed c = Inr (spec_score prior t observed)"
proof -
  have "map (code_factor t) observed = map (spec_factor t) observed"
    using assms(3) by (simp add: code_factor_binary)
  then have "prod_list (map (code_factor t) observed) = prod_list (map (spec_factor t) observed)"
    by (rule arg_cong)
  then show ?thesis
    using assms(1,2) by (simp add: condition_score_def observe_loop_product spec_score_def)
qed

theorem condition_score_formula_witness:
  "dict_lookup (prior_probs example_model) ''X'' = Inr (3 / 4) \<and>
   dict_lookup (conditional_probs example_model) ''X'' = Inr [(''A'', 1), (''B'', 0)] \<and>
   condition_score example_model [(''A'', 1), (''B'', 0), (''C'', 1)] ''X'' =
     Inr (spec_score (3 / 4) [(''A'', 1), (''B'', 0)] [(''A'', 1), (''B'', 0), (''C'', 1)]) \<and>
   spec_score (3 / 4) [(''A'', 1), (''B'', 0)] [(''A'', 1), (''B'', 0), (''C'', 1)] = 3 / 4000000"
proof -
  have p: "dict_lookup (prior_probs example_model) ''X'' = Inr (3 / 4)"
    by (simp add: example_model_def dict_lookup_def)
  have t: "dict_lookup (conditional_probs example_model) ''X'' = Inr [(''A'', 1), (''B'', 0)]"
    by (simp add: example_model_def dict_lookup_def)
  have b: "\<forall>sv \<in> set [(''A'', 1), (''B'', 0), (''C'', 1 :: int)]. snd sv = 0 \<or> snd sv = 1"
    by simp
  have v: "spec_score (3 / 4) [(''A'', 1), (''B'', 0)] [(''A'', 1), (''B'', 0), (''C'', 1)] = 3 / 4000000"
    by (simp add: spec_score_def spec_factor_def floor_prob_def)
  show ?thesis
    using condition_score_formula [OF p t b] p t v by simp
qed

lemma observe_loop_skips:
  "observe_loop m c prob (filter binary_answer observed) = observe_loop m c prob observed"
proof (induction observed arbitrary: prob)
  case Nil
  then show ?case by simp
next
  case (Cons sv rest)
  obtain s v where sv: "sv = (s, v)" by (cases sv)
  show ?case
    using Cons by (auto simp: sv binary_answer_def split: sum.splits)
qed

lemma condition_score_skips:
  "condition_score m (filter binary_answer observed) c = condition_score m observed c"
  by (simp add: condition_score_def observe_loop_skips split: sum.splits)

lemma score_loop_skips:
  "score_loop m (filter binary_answer observed) cs acc = score_loop m observed cs acc"
  by (induction cs arbitrary: acc) (simp_all add: condition_score_skips split: sum.splits)

text \<open>
  Claim C10. \<open>infer_condition\<close> skips the observations whose answer is neither 0 nor
  1: its result on any observations is its result on their 0/1-valued entries alone.
\<close>

theorem infer_condition_skips_other_values:
  "infer_condition m observed = infer_condition m (filter binary_answer observed)"
  by (simp add: infer_condition_def score_loop_skips)

section \<open>The floor probability\<close>

lemma prod_list_zero_factor:
  fixes xs :: "real list"
  shows "0 \<in> set xs \<Longrightarrow> prod_list xs = 0"
  by (simp add: prod_list_zero_iff)

lemma condition_score_product:
  "dict_lookup (prior_probs m) c = Inr prior \<Longrightarrow>
   dict_lookup (conditional_probs m) c = Inr t \<Longrightarrow>
   condition_score m observed c = Inr (prior * prod_list (map (code_factor t) observed))"
  by (simp add: condition_score_def observe_loop_product)

text \<open>
  Claim C8, as the code has it. The floor \<open>1e-6\<close> stands in only for an entry that
  the row of the condition does not have; an entry that is present is used as it is.
  So one observation multiplies the prior by the entry (answer 1) or by one minus the
  entry (answer 0), and an observed symptom with answer 1 and entry 0, or with answer 0
  and entry 1, makes the score of the condition exactly zero.
\<close>

theorem floor_only_for_missing_entry:
  assumes "dict_lookup (prior_probs m) c = Inr prior"
    and "dict_lookup (conditional_probs m) c = Inr t"
  shows "condition_score m [(s, 1)] c =
           Inr (prior * (case map_of t s of None \<Rightarrow> floor_prob | Some q \<Rightarrow> q)) \<and>
         condition_score m [(s, 0)] c =
           Inr (prior * (1 - (case map_of t s of None \<Rightarrow> floor_prob | Some q \<Rightarrow> q))) \<and>
         ((s, 1) \<in> set observed \<and> map_of t s = Some 0 \<or>
          (s, 0) \<in> set observed \<and> map_of t s = Some 1 \<longrightarrow>
            condition_score m observed c = Inr 0)"
proof -
  have one: "condition_score m [(s, 1)] c =
      Inr (prior * (case map_of t s of None \<Rightarrow> floor_prob | Some q \<Rightarrow> q))"
    by (simp add: condition_score_product [OF assms] code_factor_def dict_get_def)
  have zero: "condition_score m [(s, 0)] c =
      Inr (prior * (1 - (case map_of t s of None \<Rightarrow> floor_prob | Some q \<Rightarrow> q)))"
    by (simp add: condition_score_product [OF assms] code_factor_def dict_get_def)
  have collapse: "condition_score m observed c = Inr 0"
    if "(s, 1) \<in> set observed \<and> map_of t s = Some 0 \<or>
        (s, 0) \<in> set observed \<and> map_of t s = Some 1"
  proof -
    from that obtain v where v: "(s, v) \<in> set observed" "code_factor t (s, v) = 0"
      by (auto simp: code_factor_def dict_get_def)
    then have "0 \<in> set (map (code_factor t) observed)"
      by (metis image_eqI set_map)
    then have "prod_list (map (code_factor t) observed) = 0"
      by (rule prod_list_zero_factor)
    then show ?thesis
      by (simp add: condition_score_product [OF assms])
  qed
  from one zero collapse show ?thesis by blast
qed

theorem floor_only_for_missing_entry_witness:
  "dict_lookup (prior_probs example_model) ''Y'' = Inr (1 / 4) \<and>
   dict_lookup (conditional_probs example_model) ''Y'' = Inr [(''A'', 0), (''B'', 1)] \<and>
   (''A'', 1) \<in> set [(''B'', 0), (''A'', 1 :: int)] \<and>
   map_of [(''A'', 0), (''B'', 1 :: real)] ''A'' = Some 0 \<and>
   condition_score example_model [(''B'', 0), (''A'', 1)] ''Y'' = Inr 0 \<and>
   condition_score example_model [(''C'', 1)] ''Y'' = Inr (1 / 4 * floor_prob)"
proof -
  have p: "dict_lookup (prior_probs example_model) ''Y'' = Inr (1 / 4)"
    by (simp add: example_model_def dict_lookup_def)
  have t: "dict_lookup (conditional_probs example_model) ''Y'' = Inr [(''A'', 0), (''B'', 1)]"
    by (simp add: example_model_def dict_lookup_def)
  have o: "(''A'', 1) \<in> set [(''B'', 0), (''A'', 1 :: int)]"
    by simp
  have e: "map_of [(''A'', 0), (''B'', 1 :: real)] ''A'' = Some 0"
    by simp
  have n: "map_of [(''A'', 0), (''B'', 1 :: real)] ''C'' = None"
    by simp
  show ?thesis
    using floor_only_for_missing_entry [OF p t, of "''A''" "[(''B'', 0), (''A'', 1)]"]
      floor_only_for_missing_entry [OF p t, of "''C''" "[]"] p t o e n
    by simp
qed

text \<open>
  On the example the entry of symptom A for condition Y is present and zero; after the
  answer 1 to A the score of Y is zero, not a quarter of the floor.
\<close>

theorem zero_entry_not_floored_counterexample:
  "dict_lookup (conditional_probs example_model) ''Y'' = Inr [(''A'', 0), (''B'', 1)] \<and>
   map_of [(''A'', 0), (''B'', 1 :: real)] ''A'' = Some 0 \<and>
   condition_score example_model [(''A'', 1)] ''Y'' = Inr 0 \<and>
   condition_score example_model [(''A'', 1)] ''Y'' \<noteq> Inr (1 / 4 * floor_prob) \<and>
   infer_condition example_model [(''A'', 1)] = Inr [(''X'', 1), (''Y'', 0)]"
  by (simp add: example_model_def dict_lookup_def dict_get_def condition_score_def
      infer_condition_def floor_prob_def)

section \<open>The selector\<close>

lemma variance_loop_keys:
  "variance_loop m xs acc = Inr d \<Longrightarrow> fst ` set d = fst ` set acc \<union> set xs"
proof (induction xs arbitrary: acc)
  case Nil
  then show ?case by simp
next
  case (Cons x xs)
  then show ?case
    by (auto simp: update_keys_set split: sum.splits)
qed

lemma select_next_question_member:
  assumes "select_next_question m asked = Inr (Some s)"
  shows "s \<in> set (symptoms m) \<and> s \<notin> asked"
proof -
  let ?rem = "filter (\<lambda>symptom. symptom \<notin> asked) (symptoms m)"
  from assms obtain d where d: "variance_loop m ?rem [] = Inr d" and k: "py_max_key d = Inr s"
    by (auto simp: select_next_question_def Let_def split: if_splits sum.splits)
  from variance_loop_keys [OF d] py_max_key_member [OF k] have "s \<in> set ?rem" by simp
  then show ?thesis by simp
qed

lemma select_next_question_none:
  "select_next_question m asked = Inr None \<longleftrightarrow> set (symptoms m) \<subseteq> asked"
  by (auto simp: select_next_question_def Let_def filter_empty_conv split: sum.splits)

text \<open>
  Claim C5. For an asked set within the symptoms of the model, \<open>select_next_question\<close>
  returns \<open>None\<close> exactly when the asked set is the whole symptom set, and a symptom
  it returns is never in the asked set.
\<close>

theorem select_next_question_unasked:
  assumes "asked \<subseteq> set (symptoms m)"
  shows "(select_next_question m asked = Inr None \<longleftrightarrow> asked = set (symptoms m)) \<and>
         (\<forall>s. select_next_question m asked = Inr (Some s) \<longrightarrow> s \<notin> asked)"
  using assms select_next_question_member [of m asked] select_next_question_none [of m asked]
  by auto

theorem select_next_question_unasked_witness:
  "{''A''} \<subseteq> set (symptoms example_model) \<and>
   (select_next_question example_model {''A''} = Inr None \<longleftrightarrow>
      {''A''} = set (symptoms example_model)) \<and>
   select_next_question example_model {''A''} = Inr (Some ''B'') \<and> ''B'' \<notin> {''A''}"
proof -
  have h: "{''A''} \<subseteq> set (symptoms example_model)"
    by (simp add: example_model_def)
  have v: "select_next_question example_model {''A''} = Inr (Some ''B'')"
    by code_simp
  show ?thesis
    using select_next_question_unasked [OF h] h v by simp
qed

section \<open>The tables of a built model\<close>

lemma init_model_fields:
  assumes "init_model ds = Inr m"
  shows "columns ds \<noteq> []" and "symptoms m = butlast (columns ds)"
    and "conditions m = unique (map snd (rows ds))"
    and "prior_probs m = map (\<lambda>c. (c, dataset_prior ds c)) (conditions m)"
    and "conditional_probs m = map (\<lambda>c. (c, dataset_table ds c)) (conditions m)"
proof -
  from assms show c: "columns ds \<noteq> []"
    by (auto simp: init_model_def split: if_splits)
  with assms have m: "m = \<lparr>symptoms = butlast (columns ds),
      conditions = unique (map snd (rows ds)),
      prior_probs = calculate_prior_probs ds,
      conditional_probs = calculate_conditional_probs ds (butlast (columns ds))
        (unique (map snd (rows ds)))\<rparr>"
    by (simp add: init_model_def Let_def)
  from m show "symptoms m = butlast (columns ds)" by simp
  from m show "conditions m = unique (map snd (rows ds))" by simp
  from m show "prior_probs m = map (\<lambda>c. (c, dataset_prior ds c)) (conditions m)"
    by (simp add: calculate_prior_probs_def dataset_prior_def Let_def)
  have "calculate_conditional_probs ds (butlast (columns ds)) (unique (map snd (rows ds))) =
        map (\<lambda>c. (c, dataset_table ds c)) (unique (map snd (rows ds)))"
    unfolding calculate_conditional_probs_def dataset_table_def
    by (rule fold_update_distinct) (rule distinct_unique)
  with m show "conditional_probs m = map (\<lambda>c. (c, dataset_table ds c)) (conditions m)"
    by simp
qed

lemma init_model_lookups:
  assumes "init_model ds = Inr m" and "c \<in> set (conditions m)"
  shows "dict_lookup (prior_probs m) c = Inr (dataset_prior ds c)"
    and "dict_lookup (conditional_probs m) c = Inr (dataset_table ds c)"
  using assms(2)
  by (simp_all add: init_model_fields(4,5) [OF assms(1)] dict_lookup_def map_of_keyed)

lemma init_model_score:
  assumes "init_model ds = Inr m" and "c \<in> set (conditions m)"
  shows "condition_score m observed c = Inr (dataset_score ds observed c)"
  using init_model_lookups [OF assms]
  by (simp add: condition_score_def observe_loop_product dataset_score_def)

lemma score_loop_fold:
  "\<forall>c \<in> set cs. condition_score m observed c = Inr (f c) \<Longrightarrow>
   score_loop m observed cs acc = Inr (foldl (\<lambda>d c. AList.update c (f c) d) acc cs)"
  by (induction cs arbitrary: acc) simp_all

lemma init_model_score_loop:
  assumes "init_model ds = Inr m"
  shows "score_loop m observed (conditions m) [] =
         Inr (map (\<lambda>c. (c, dataset_score ds observed c)) (conditions m))"
proof -
  have "distinct (conditions m)"
    by (simp add: init_model_fields(3) [OF assms] distinct_unique)
  then have f: "foldl (\<lambda>d c. AList.update c (dataset_score ds observed c) d) [] (conditions m) =
             map (\<lambda>c. (c, dataset_score ds observed c)) (conditions m)"
    by (rule fold_update_distinct)
  have "\<forall>c \<in> set (conditions m).
      condition_score m observed c = Inr (dataset_score ds observed c)"
    using init_model_score [OF assms] by simp
  then have "score_loop m observed (conditions m) [] =
      Inr (foldl (\<lambda>d c. AList.update c (dataset_score ds observed c) d) [] (conditions m))"
    by (rule score_loop_fold)
  with f show ?thesis
    by simp
qed

lemma init_model_infer:
  assumes "init_model ds = Inr m"
  shows "infer_condition m observed =
         (if (\<Sum>c\<leftarrow>conditions m. dataset_score ds observed c) = 0
          then Inr (map (\<lambda>c. (c, 1 / real (length (conditions m)))) (conditions m))
          else Inr (map (\<lambda>c. (c, dataset_score ds observed c /
                                 (\<Sum>c\<leftarrow>conditions m. dataset_score ds observed c)))
                        (conditions m)))"
proof -
  have d: "distinct (conditions m)"
    by (simp add: init_model_fields(3) [OF assms] distinct_unique)
  have u: "dict_comp (\<lambda>condition. 1 / real (length (conditions m))) (conditions m) =
           map (\<lambda>c. (c, 1 / real (length (conditions m)))) (conditions m)"
    by (simp add: dict_comp_unique unique_distinct [OF d])
  show ?thesis
    by (simp add: infer_condition_def init_model_score_loop [OF assms] u comp_def)
qed

section \<open>The posterior of a built model\<close>

lemma column_sum_bounds:
  assumes "\<forall>r \<in> set rs. j < length (fst r) \<and> (\<forall>x \<in> set (fst r). x = 0 \<or> x = 1)"
  shows "0 \<le> (\<Sum>r\<leftarrow>rs. fst r ! j) \<and> (\<Sum>r\<leftarrow>rs. fst r ! j) \<le> int (length rs)"
  using assms
proof (induction rs)
  case Nil
  then show ?case by simp
next
  case (Cons r rs)
  from Cons.prems have "fst r ! j \<in> set (fst r)" by simp
  with Cons.prems have "fst r ! j = 0 \<or> fst r ! j = 1" by simp
  moreover from Cons have "0 \<le> (\<Sum>r\<leftarrow>rs. fst r ! j) \<and> (\<Sum>r\<leftarrow>rs. fst r ! j) \<le> int (length rs)"
    by simp
  ultimately show ?case by auto
qed

lemma ratio_range:
  fixes x :: int and n :: nat
  assumes "0 \<le> x" and "x \<le> int n"
  shows "0 \<le> real_of_int x / real n \<and> real_of_int x / real n \<le> 1"
proof (cases "n = 0")
  case True
  then show ?thesis by simp
next
  case False
  from assms(2) have "real_of_int x \<le> real n"
    by (metis of_int_le_iff of_int_of_nat_eq)
  with False assms(1) show ?thesis by simp
qed

lemma condition_table_range:
  assumes "\<forall>r \<in> set rs. length (fst r) = length syms \<and> (\<forall>x \<in> set (fst r). x = 0 \<or> x = 1)"
    and "(s, p) \<in> set (condition_table syms rs)"
  shows "0 \<le> p \<and> p \<le> 1"
proof -
  let ?vals = "map (\<lambda>x. real_of_int x / real (length rs)) (column_sums (length syms) rs)"
  from assms(2) set_to_dict_subset have "(s, p) \<in> set (zip syms ?vals)"
    unfolding condition_table_def by blast
  then have "p \<in> set ?vals"
    by (rule set_zip_rightD)
  then obtain j where j: "j < length syms"
    and p: "p = real_of_int (\<Sum>r\<leftarrow>rs. fst r ! j) / real (length rs)"
    by (auto simp: column_sums_def)
  from assms(1) j have "\<forall>r \<in> set rs. j < length (fst r) \<and> (\<forall>x \<in> set (fst r). x = 0 \<or> x = 1)"
    by simp
  from column_sum_bounds [OF this] show ?thesis
    unfolding p by (simp add: ratio_range)
qed

lemma dict_get_range:
  assumes "\<forall>sp \<in> set t. 0 \<le> snd sp \<and> snd sp \<le> (1 :: real)" and "0 \<le> dflt" and "dflt \<le> 1"
  shows "0 \<le> dict_get t s dflt \<and> dict_get t s dflt \<le> 1"
proof (cases "map_of t s")
  case None
  with assms(2,3) show ?thesis by (simp add: dict_get_def)
next
  case (Some p)
  then have "(s, p) \<in> set t" by (rule map_of_SomeD)
  with assms(1) have "0 \<le> p \<and> p \<le> 1" by fastforce
  with Some show ?thesis by (simp add: dict_get_def)
qed

lemma code_factor_nonneg:
  assumes "\<forall>sp \<in> set t. 0 \<le> snd sp \<and> snd sp \<le> (1 :: real)"
  shows "0 \<le> code_factor t sv"
  using dict_get_range [OF assms, of floor_prob "fst sv"]
  by (simp add: code_factor_def floor_prob_def)

lemma dataset_table_range:
  assumes "binary_dataset ds" and "sp \<in> set (dataset_table ds c)"
  shows "0 \<le> snd sp \<and> snd sp \<le> 1"
proof -
  have "\<forall>r \<in> set (filter (\<lambda>r. snd r = c) (rows ds)).
          length (fst r) = length (butlast (columns ds)) \<and> (\<forall>x \<in> set (fst r). x = 0 \<or> x = 1)"
    using assms(1) by (simp add: binary_dataset_def list_all_iff)
  moreover have "(fst sp, snd sp) \<in> set (condition_table (butlast (columns ds))
      (filter (\<lambda>r. snd r = c) (rows ds)))"
    using assms(2) by (simp add: dataset_table_def)
  ultimately show ?thesis by (rule condition_table_range)
qed

lemma dataset_prior_nonneg: "0 \<le> dataset_prior ds c"
  by (simp add: dataset_prior_def)

lemma dataset_score_nonneg:
  assumes "binary_dataset ds"
  shows "0 \<le> dataset_score ds observed c"
proof -
  have "\<forall>sp \<in> set (dataset_table ds c). 0 \<le> snd sp \<and> snd sp \<le> 1"
    using dataset_table_range [OF assms] by blast
  then have "\<And>x. x \<in> set (map (code_factor (dataset_table ds c)) observed) \<Longrightarrow> 0 \<le> x"
    using code_factor_nonneg by auto
  then have "0 \<le> prod_list (map (code_factor (dataset_table ds c)) observed)"
    by (rule prod_list_nonneg)
  with dataset_prior_nonneg [of ds c] show ?thesis
    by (simp add: dataset_score_def)
qed

text \<open>
  Claim C1. On a model built from a data frame with at least one record and 0/1 cells,
  \<open>infer_condition\<close> returns, for any observations, a dictionary whose keys are the
  conditions of the model, each once, whose values are not negative and add up to 1;
  when the score of every condition is zero, it is the uniform distribution.
\<close>

theorem infer_condition_distribution:
  assumes "init_model ds = Inr m" and "rows ds \<noteq> []" and "binary_dataset ds"
  shows "\<exists>posterior. infer_condition m observed = Inr posterior \<and>
           map fst posterior = conditions m \<and> distinct (conditions m) \<and>
           (\<forall>cp \<in> set posterior. 0 \<le> snd cp) \<and>
           sum_list (map snd posterior) = 1 \<and>
           ((\<forall>c \<in> set (conditions m). condition_score m observed c = Inr 0) \<longrightarrow>
              posterior = map (\<lambda>c. (c, 1 / real (length (conditions m)))) (conditions m))"
proof -
  let ?score = "dataset_score ds observed"
  let ?total = "\<Sum>c\<leftarrow>conditions m. ?score c"
  let ?n = "real (length (conditions m))"
  let ?uniform = "map (\<lambda>c. (c, 1 / ?n)) (conditions m)"
  have d: "distinct (conditions m)"
    by (simp add: init_model_fields(3) [OF assms(1)] distinct_unique)
  have "set (conditions m) \<noteq> {}"
    using assms(2) by (simp add: init_model_fields(3) [OF assms(1)] set_unique)
  then have ne: "conditions m \<noteq> []" by auto
  have nonneg: "0 \<le> ?score c" for c
    by (rule dataset_score_nonneg [OF assms(3)])
  have total_nonneg: "0 \<le> ?total"
    by (rule sum_list_nonneg) (auto simp: nonneg)
  have zero: "?total = 0" if "\<forall>c \<in> set (conditions m). condition_score m observed c = Inr 0"
  proof -
    from that init_model_score [OF assms(1)] have "\<forall>c \<in> set (conditions m). ?score c = 0"
      by simp
    then have "map ?score (conditions m) = map (\<lambda>c. 0) (conditions m)" by simp
    then show ?thesis by (simp only: sum_list_0)
  qed
  show ?thesis
  proof (cases "?total = 0")
    case True
    have i: "infer_condition m observed = Inr ?uniform"
      using True by (simp add: init_model_infer [OF assms(1)])
    have "sum_list (map snd ?uniform) = ?n * (1 / ?n)"
      by (simp add: comp_def sum_list_triv)
    with ne have "sum_list (map snd ?uniform) = 1" by simp
    with i d show ?thesis by (simp add: comp_def)
  next
    case False
    let ?post = "map (\<lambda>c. (c, ?score c / ?total)) (conditions m)"
    have i: "infer_condition m observed = Inr ?post"
      using False by (simp add: init_model_infer [OF assms(1)])
    have "sum_list (map snd ?post) = (\<Sum>c\<leftarrow>conditions m. ?score c / ?total)"
      by (simp add: comp_def)
    also have "\<dots> = ?total / ?total"
      by (rule sum_list_divide_const)
    finally have one: "sum_list (map snd ?post) = 1"
      using False by simp
    have pos: "\<forall>cp \<in> set ?post. 0 \<le> snd cp"
      using nonneg total_nonneg by auto
    have keys: "map fst ?post = conditions m"
      by (simp add: comp_def)
    from zero False have "\<not> (\<forall>c \<in> set (conditions m). condition_score m observed c = Inr 0)"
      by blast
    with i keys d pos one show ?thesis by blast
  qed
qed

theorem infer_condition_distribution_witness:
  "init_model example_dataset = Inr example_model \<and> rows example_dataset \<noteq> [] \<and>
   binary_dataset example_dataset \<and>
   condition_score example_model [(''A'', 1), (''B'', 1)] ''X'' = Inr 0 \<and>
   condition_score example_model [(''A'', 1), (''B'', 1)] ''Y'' = Inr 0 \<and>
   infer_condition example_model [(''A'', 1), (''B'', 1)] = Inr [(''X'', 1 / 2), (''Y'', 1 / 2)] \<and>
   (\<exists>posterior. infer_condition example_model [(''A'', 1), (''B'', 1)] = Inr posterior \<and>
      map fst posterior = conditions example_model \<and> sum_list (map snd posterior) = 1)"
proof -
  have r: "rows example_dataset \<noteq> []"
    by (simp add: example_dataset_def)
  have b: "binary_dataset example_dataset"
    by (simp add: binary_dataset_def example_dataset_def)
  have x: "condition_score example_model [(''A'', 1), (''B'', 1)] ''X'' = Inr 0"
    by code_simp
  have y: "condition_score example_model [(''A'', 1), (''B'', 1)] ''Y'' = Inr 0"
    by code_simp
  have v: "infer_condition example_model [(''A'', 1), (''B'', 1)] =
           Inr [(''X'', 1 / 2), (''Y'', 1 / 2)]"
    by code_simp
  show ?thesis
    using infer_condition_distribution [OF init_model_example r b, of "[(''A'', 1), (''B'', 1)]"]
      init_model_example r b x y v
    by simp
qed

section \<open>The collections of a session\<close>

lemma show_final_diagnosis_state:
  "fst (show_final_diagnosis m s) =
   s\<lparr>yes_disabled := True, no_disabled := True, end_disabled := True\<rparr>"
  by (simp add: show_final_diagnosis_def Let_def split: sum.splits)

lemma ask_next_question_collections:
  "observed_symptoms (fst (ask_next_question m s)) = observed_symptoms s \<and>
   asked_symptoms (fst (ask_next_question m s)) = asked_symptoms s"
  by (simp add: ask_next_question_def show_final_diagnosis_state split: sum.splits option.splits)

lemma record_symptom_rejected:
  "yes_disabled s \<or> no_disabled s \<or> select_next_question m (asked_symptoms s) = Inr None \<Longrightarrow>
   record_symptom m s v = (s, None)"
  by (auto simp: record_symptom_def)

lemma record_symptom_recorded:
  assumes "\<not> yes_disabled s" and "\<not> no_disabled s"
    and "select_next_question m (asked_symptoms s) = Inr (Some cur)"
  shows "observed_symptoms (fst (record_symptom m s v)) = AList.update cur v (observed_symptoms s) \<and>
         asked_symptoms (fst (record_symptom m s v)) = insert cur (asked_symptoms s)"
  using assms
  by (simp add: record_symptom_def Let_def ask_next_question_collections split: sum.splits)

lemma record_symptom_not_accepted:
  "\<not> accepted m s \<Longrightarrow>
   observed_symptoms (fst (record_symptom m s v)) = observed_symptoms s \<and>
   asked_symptoms (fst (record_symptom m s v)) = asked_symptoms s"
  by (auto simp: accepted_def record_symptom_def split: sum.splits option.splits)

text \<open>
  Claim C7, as the code has it. A call of \<open>record_symptom\<close> on a session whose Yes or
  No button is disabled (the session is over), or for which no question is pending,
  returns without raising and leaves the session as it was. The value is not looked at:
  on a live session with a pending question it is stored under that symptom, and the
  symptom joins the asked set, whatever the value is.
\<close>

theorem record_symptom_guards:
  "(yes_disabled s \<or> no_disabled s \<or> select_next_question m (asked_symptoms s) = Inr None \<longrightarrow>
      record_symptom m s v = (s, None)) \<and>
   (\<not> yes_disabled s \<and> \<not> no_disabled s \<and>
    select_next_question m (asked_symptoms s) = Inr (Some cur) \<longrightarrow>
      observed_symptoms (fst (record_symptom m s v)) = AList.update cur v (observed_symptoms s) \<and>
      asked_symptoms (fst (record_symptom m s v)) = insert cur (asked_symptoms s))"
  using record_symptom_rejected [of s m v] record_symptom_recorded [of s m cur v] by blast

theorem record_symptom_guards_witness:
  "yes_disabled example_finished \<and>
   record_symptom example_model example_finished 1 = (example_finished, None) \<and>
   \<not> yes_disabled example_start \<and> \<not> no_disabled example_start \<and>
   select_next_question example_model (asked_symptoms example_start) = Inr (Some ''A'') \<and>
   observed_symptoms (fst (record_symptom example_model example_start 2)) = [(''A'', 2)] \<and>
   asked_symptoms (fst (record_symptom example_model example_start 2)) = {''A''}"
proof -
  have f: "yes_disabled example_finished"
    by (simp add: example_finished_def)
  have a: "\<not> yes_disabled example_start \<and> \<not> no_disabled example_start"
    by (simp add: example_start_def)
  have q: "select_next_question example_model (asked_symptoms example_start) = Inr (Some ''A'')"
    unfolding example_start_def by code_simp
  have o: "observed_symptoms example_start = [] \<and> asked_symptoms example_start = {}"
    by (simp add: example_start_def)
  show ?thesis
    using record_symptom_guards [of example_finished example_model 1 "''A''"]
      record_symptom_guards [of example_start example_model 2 "''A''"] f a q o
    by simp
qed

text \<open>
  The value 2 on a fresh session of the example is stored, and the call on an ended
  session raises nothing.
\<close>

theorem answer_outside_binary_counterexample:
  "(2 :: int) \<noteq> 0 \<and> (2 :: int) \<noteq> 1 \<and>
   record_symptom example_model example_start 2 =
     (\<lparr>observed_symptoms = [(''A'', 2)], asked_symptoms = {''A''},
       yes_disabled = False, no_disabled = False, end_disabled = False\<rparr>, None) \<and>
   record_symptom example_model example_finished 1 = (example_finished, None)"
proof -
  have "record_symptom example_model example_start 2 =
     (\<lparr>observed_symptoms = [(''A'', 2)], asked_symptoms = {''A''},
       yes_disabled = False, no_disabled = False, end_disabled = False\<rparr>, None)"
    unfolding example_start_def by code_simp
  moreover have "record_symptom example_model example_finished 1 = (example_finished, None)"
    by (simp add: record_symptom_def example_finished_def)
  ultimately show ?thesis by simp
qed



lemma handle_collections_mono:
  "asked_symptoms s \<subseteq> asked_symptoms (handle m s ev)"
proof (cases ev)
  case (Answer v)
  show ?thesis
  proof (cases "accepted m s")
    case True
    then obtain cur where "\<not> yes_disabled s" "\<not> no_disabled s"
      "select_next_question m (asked_symptoms s) = Inr (Some cur)"
      by (auto simp: accepted_def split: sum.splits option.splits)
    from record_symptom_recorded [OF this] Answer show ?thesis by auto
  next
    case False
    from record_symptom_not_accepted [OF this] Answer show ?thesis by simp
  qed
next
  case Finish
  then show ?thesis by (simp add: show_final_diagnosis_state)
qed

lemma handle_invariant:
  assumes "session_invariant m s"
  shows "session_invariant m (handle m s ev)"
proof (cases ev)
  case (Answer v)
  show ?thesis
  proof (cases "accepted m s")
    case True
    then obtain cur where c: "\<not> yes_disabled s" "\<not> no_disabled s"
      "select_next_question m (asked_symptoms s) = Inr (Some cur)"
      by (auto simp: accepted_def split: sum.splits option.splits)
    from select_next_question_member [OF c(3)] have "cur \<in> set (symptoms m)" by simp
    with record_symptom_recorded [OF c, of v] assms Answer show ?thesis
      by (auto simp: session_invariant_def AList.dom_update)
  next
    case False
    from record_symptom_not_accepted [OF this, of v] assms Answer show ?thesis
      by (auto simp: session_invariant_def)
  qed
next
  case Finish
  with assms show ?thesis
    by (auto simp: session_invariant_def show_final_diagnosis_state)
qed

lemma init_session_invariant: "session_invariant m (fst (init_session m))"
  by (simp add: init_session_def session_invariant_def ask_next_question_collections)

lemma reachable_invariant:
  "session_invariant m s \<Longrightarrow> session_invariant m (foldl (handle m) s evs)"
  by (induction evs arbitrary: s) (simp_all add: handle_invariant)

lemma accepted_answer_grows:
  assumes "session_invariant m s" and "accepted m s"
  shows "card (asked_symptoms (handle m s (Answer v))) = card (asked_symptoms s) + 1"
proof -
  from assms(2) obtain cur where c: "\<not> yes_disabled s" "\<not> no_disabled s"
    "select_next_question m (asked_symptoms s) = Inr (Some cur)"
    by (auto simp: accepted_def split: sum.splits option.splits)
  from select_next_question_member [OF c(3)] have new: "cur \<notin> asked_symptoms s" by simp
  have "finite (asked_symptoms s)"
    using assms(1) by (simp add: session_invariant_def)
  with new record_symptom_recorded [OF c, of v] show ?thesis by simp
qed

text \<open>
  Claim C9. In every state that a session reaches from its start by answers and by
  ending the questionnaire, the asked set lies within the symptoms of the model and is
  the key set of the observations; no event removes a symptom from the asked set; and an
  accepted answer makes the asked set larger by exactly one.
\<close>

theorem asked_set_invariant:
  "session_invariant m (foldl (handle m) (fst (init_session m)) evs) \<and>
   asked_symptoms (foldl (handle m) (fst (init_session m)) evs)
     \<subseteq> asked_symptoms (handle m (foldl (handle m) (fst (init_session m)) evs) ev) \<and>
   (accepted m (foldl (handle m) (fst (init_session m)) evs) \<longrightarrow>
      card (asked_symptoms (handle m (foldl (handle m) (fst (init_session m)) evs) (Answer v))) =
      card (asked_symptoms (foldl (handle m) (fst (init_session m)) evs)) + 1)"
  using reachable_invariant [OF init_session_invariant, of m evs]
    handle_collections_mono accepted_answer_grows by blast

theorem asked_set_invariant_witness:
  "foldl (handle example_model) (fst (init_session example_model)) [Answer 1] =
     \<lparr>observed_symptoms = [(''A'', 1)], asked_symptoms = {''A''},
      yes_disabled = False, no_disabled = False, end_disabled = False\<rparr> \<and>
   accepted example_model
     (foldl (handle example_model) (fst (init_session example_model)) [Answer 1]) \<and>
   card (asked_symptoms (foldl (handle example_model) (fst (init_session example_model))
     [Answer 1])) = 1 \<and>
   card (asked_symptoms (handle example_model
     (foldl (handle example_model) (fst (init_session example_model)) [Answer 1])
     (Answer 0))) = 2"
proof -
  have s: "foldl (handle example_model) (fst (init_session example_model)) [Answer 1] =
     \<lparr>observed_symptoms = [(''A'', 1)], asked_symptoms = {''A''},
      yes_disabled = False, no_disabled = False, end_disabled = False\<rparr>"
    by code_simp
  have a: "accepted example_model
     \<lparr>observed_symptoms = [(''A'', 1)], asked_symptoms = {''A''},
      yes_disabled = False, no_disabled = False, end_disabled = False\<rparr>"
    by code_simp
  show ?thesis
    using asked_set_invariant [of example_model "[Answer 1]" Finish 0] s a
    by simp
qed

section \<open>Evaluation in double precision\<close>

lemmas fp_arith = round_double_def float_exponent_def round_half_even_def Let_def bitlen_def
  compute_floorlog power_int_def power_one_over float_op_def fadd_def fsub_def fmul_def fdiv_def

lemmas fp_build = init_model_fp_def calculate_prior_probs_fp_def present_labels_def
  calculate_conditional_probs_fp_def condition_table_fp_def cell_sums_def label_eq_def
  to_dict_def unique_def upt_rec

section \<open>The tables in double precision\<close>

lemma unique_from_map_Some:
  "unique_from (map Some seen) (map Some xs) = map Some (unique_from seen xs)"
proof (induction xs arbitrary: seen)
  case Nil
  then show ?case by simp
next
  case (Cons a xs)
  have "unique_from (map Some (a # seen)) (map Some xs) = map Some (unique_from (a # seen) xs)"
    by (rule Cons.IH)
  with Cons.IH [of seen] show ?case by (auto simp: image_iff)
qed

lemma unique_map_Some: "unique (map Some xs) = map Some (unique xs)"
  using unique_from_map_Some [of "[]" xs] by (simp add: unique_def)

lemma fold_update_keys:
  "fst ` set (foldl (\<lambda>d kv. AList.update (fst kv) (snd kv) d) acc kvs) =
   fst ` set acc \<union> fst ` set kvs"
  by (induction kvs arbitrary: acc) (auto simp: AList.dom_update)

lemma to_dict_keys: "fst ` set (to_dict kvs) = fst ` set kvs"
  using fold_update_keys [of "[]" kvs] by (simp add: to_dict_def)

lemma to_dict_constant:
  assumes "\<forall>kv \<in> set kvs. snd kv = v" and "k \<in> fst ` set kvs"
  shows "map_of (to_dict kvs) k = Some v"
proof -
  from assms(2) have "k \<in> fst ` set (to_dict kvs)"
    by (simp add: to_dict_keys)
  then obtain w where w: "map_of (to_dict kvs) k = Some w"
    by (metis domD dom_map_of_conv_image_fst)
  then have "(k, w) \<in> set (to_dict kvs)"
    by (rule map_of_SomeD)
  with set_to_dict_subset have "(k, w) \<in> set kvs" by blast
  with assms(1) have "w = v" by fastforce
  with w show ?thesis by simp
qed

lemma agent_fields:
  "agent_symptoms (init_model_fp f) = symptom_columns f"
  "agent_conditions (init_model_fp f) = unique (map snd (records f))"
  "agent_prior_probs (init_model_fp f) = calculate_prior_probs_fp f"
  "agent_conditional_probs (init_model_fp f) =
     map (\<lambda>c. (c, condition_table_fp (symptom_columns f)
                     (filter (\<lambda>r. label_eq (snd r) c) (records f))))
       (agent_conditions (init_model_fp f))"
proof -
  show "agent_symptoms (init_model_fp f) = symptom_columns f"
    by (simp add: init_model_fp_def Let_def)
  show c: "agent_conditions (init_model_fp f) = unique (map snd (records f))"
    by (simp add: init_model_fp_def Let_def)
  show "agent_prior_probs (init_model_fp f) = calculate_prior_probs_fp f"
    by (simp add: init_model_fp_def Let_def)
  have "calculate_conditional_probs_fp f (symptom_columns f) (unique (map snd (records f))) =
        map (\<lambda>c. (c, condition_table_fp (symptom_columns f)
                        (filter (\<lambda>r. label_eq (snd r) c) (records f))))
          (unique (map snd (records f)))"
    unfolding calculate_conditional_probs_fp_def
    by (rule fold_update_distinct) (rule distinct_unique)
  then show "agent_conditional_probs (init_model_fp f) =
     map (\<lambda>c. (c, condition_table_fp (symptom_columns f)
                     (filter (\<lambda>r. label_eq (snd r) c) (records f))))
       (agent_conditions (init_model_fp f))"
    by (simp add: init_model_fp_def Let_def)
qed

lemma nan_table:
  assumes "s \<in> set syms"
  shows "map_of (condition_table_fp syms []) s = Some None"
proof -
  let ?vals = "map (\<lambda>x. fdiv (Some (real_of_int x)) (Some (real (length ([] :: (int list \<times> string option) list)))))
                 (cell_sums (length syms) (map fst ([] :: (int list \<times> string option) list)))"
  have len: "length ?vals = length syms"
    by (simp add: cell_sums_def)
  have "\<forall>v \<in> set ?vals. v = None"
    by (simp add: fdiv_def)
  then have all: "\<forall>kv \<in> set (zip syms ?vals). snd kv = None"
    by (metis set_zip_rightD prod.collapse)
  have "fst ` set (zip syms ?vals) = set syms"
    using len by (metis map_fst_zip set_map)
  with assms have "s \<in> fst ` set (zip syms ?vals)" by simp
  with all show ?thesis
    unfolding condition_table_fp_def by (rule to_dict_constant)
qed

lemma no_prior_for_nan: "map_of (calculate_prior_probs_fp f) None = None"
  by (simp add: calculate_prior_probs_fp_def Let_def map_of_eq_None_iff image_iff)

text \<open>
  Claim C6, as the code has it. \<open>__init__\<close> raises no data error and guards nothing:
  \<open>init_model_fp\<close> is a model for every frame. Its symptoms are the symptom columns,
  none when there is none; its conditions are the label cells of the records, and
  without records it has no condition and empty tables. When a label cell is empty,
  \<open>nan\<close> is a condition that no record supports: it has no prior, and its row in the
  conditional table is the \<open>nan\<close> of \<open>0 / 0\<close> for every symptom.
\<close>

theorem init_model_fp_outcome:
  "agent_symptoms (init_model_fp f) = symptom_columns f \<and>
   set (agent_conditions (init_model_fp f)) = snd ` set (records f) \<and>
   (records f = [] \<longrightarrow>
      agent_conditions (init_model_fp f) = [] \<and> agent_prior_probs (init_model_fp f) = [] \<and>
      agent_conditional_probs (init_model_fp f) = []) \<and>
   (None \<in> snd ` set (records f) \<longrightarrow>
      None \<in> set (agent_conditions (init_model_fp f)) \<and>
      filter (\<lambda>r. label_eq (snd r) None) (records f) = [] \<and>
      dict_lookup (agent_prior_probs (init_model_fp f)) None = Inl KeyError \<and>
      (\<exists>row. dict_lookup (agent_conditional_probs (init_model_fp f)) None = Inr row \<and>
         (\<forall>s \<in> set (symptom_columns f). dict_lookup row s = Inr None)))"
proof -
  let ?m = "init_model_fp f"
  have conds: "set (agent_conditions ?m) = snd ` set (records f)"
    by (simp add: agent_fields(2) set_unique)
  have empty: "agent_conditions ?m = [] \<and> agent_prior_probs ?m = [] \<and>
      agent_conditional_probs ?m = []" if "records f = []"
    using that by (simp add: fp_build)
  have nan: "None \<in> set (agent_conditions ?m) \<and>
      filter (\<lambda>r. label_eq (snd r) None) (records f) = [] \<and>
      dict_lookup (agent_prior_probs ?m) None = Inl KeyError \<and>
      (\<exists>row. dict_lookup (agent_conditional_probs ?m) None = Inr row \<and>
         (\<forall>s \<in> set (symptom_columns f). dict_lookup row s = Inr None))"
    if "None \<in> snd ` set (records f)"
  proof -
    from that conds have mem: "None \<in> set (agent_conditions ?m)" by simp
    have none: "filter (\<lambda>r. label_eq (snd r) None) (records f) = []"
      by (simp add: label_eq_def split: option.splits)
    have prior: "dict_lookup (agent_prior_probs ?m) None = Inl KeyError"
      by (simp add: agent_fields(3) dict_lookup_def no_prior_for_nan)
    have "map_of (agent_conditional_probs ?m) None =
          Some (condition_table_fp (symptom_columns f)
                  (filter (\<lambda>r. label_eq (snd r) None) (records f)))"
      using mem by (subst agent_fields(4)) (rule map_of_keyed)
    then have row: "dict_lookup (agent_conditional_probs ?m) None =
          Inr (condition_table_fp (symptom_columns f) [])"
      by (simp add: dict_lookup_def none)
    have "\<forall>s \<in> set (symptom_columns f).
            dict_lookup (condition_table_fp (symptom_columns f) []) s = Inr None"
      by (simp add: dict_lookup_def nan_table)
    with mem none prior row show ?thesis by blast
  qed
  from conds empty nan show ?thesis
    by (simp add: agent_fields(1))
qed

theorem init_model_fp_outcome_witness:
  "None \<in> snd ` set (records missing_label_frame) \<and>
   agent_conditions (init_model_fp missing_label_frame) = [Some ''X'', None] \<and>
   dict_lookup (agent_prior_probs (init_model_fp missing_label_frame)) None = Inl KeyError \<and>
   dict_lookup (agent_conditional_probs (init_model_fp missing_label_frame)) None =
     Inr [(''A'', None)] \<and>
   records no_records_frame = [] \<and>
   agent_conditions (init_model_fp no_records_frame) = []"
proof -
  have n: "None \<in> snd ` set (records missing_label_frame)"
    by (simp add: missing_label_frame_def)
  have c: "agent_conditions (init_model_fp missing_label_frame) = [Some ''X'', None]"
    by (simp add: missing_label_frame_def fp_build)
  have r: "dict_lookup (agent_conditional_probs (init_model_fp missing_label_frame)) None =
     Inr [(''A'', None)]"
    by (simp add: missing_label_frame_def fp_build fp_arith dict_lookup_def)
  have e: "records no_records_frame = []"
    by (simp add: no_records_frame_def)
  show ?thesis
    using init_model_fp_outcome [of missing_label_frame]
      init_model_fp_outcome [of no_records_frame] n c r e
    by simp
qed

text \<open>
  A frame without records, a frame with the label column only and a frame with an empty
  label cell are each built into a model.
\<close>

theorem init_model_fp_no_error_counterexample:
  "init_model_fp no_records_frame =
     \<lparr>agent_symptoms = [''A'', ''B''], agent_conditions = [], agent_prior_probs = [],
      agent_conditional_probs = []\<rparr> \<and>
   init_model_fp label_only_frame =
     \<lparr>agent_symptoms = [], agent_conditions = [Some ''X''],
      agent_prior_probs = [(Some ''X'', Some 1)],
      agent_conditional_probs = [(Some ''X'', [])]\<rparr> \<and>
   init_model_fp missing_label_frame =
     \<lparr>agent_symptoms = [''A''], agent_conditions = [Some ''X'', None],
      agent_prior_probs = [(Some ''X'', Some 1)],
      agent_conditional_probs = [(Some ''X'', [(''A'', Some 1)]), (None, [(''A'', None)])]\<rparr>"
  by (simp add: no_records_frame_def label_only_frame_def missing_label_frame_def
      fp_build fp_arith)

section \<open>The posterior in double precision\<close>

lemma labels_present:
  "None \<notin> snd ` set rs \<Longrightarrow>
   map snd rs = map Some (concat (map (\<lambda>r. case snd r of None \<Rightarrow> [] | Some l \<Rightarrow> [l]) rs))"
proof (induction rs)
  case Nil
  then show ?case by simp
next
  case (Cons r rs)
  from Cons.prems obtain l where "snd r = Some l"
    by (cases "snd r") auto
  with Cons show ?case by simp
qed

lemma agent_priors_keyed:
  assumes "None \<notin> snd ` set (records f)"
  shows "agent_prior_probs (init_model_fp f) =
         map (\<lambda>c. (c, prior_of (init_model_fp f) c)) (agent_conditions (init_model_fp f))"
proof -
  let ?labels = "present_labels f"
  let ?g = "\<lambda>c. case c of None \<Rightarrow> None
              | Some l \<Rightarrow> fdiv (Some (real (count_list ?labels l))) (Some (real (length ?labels)))"
  have conds: "agent_conditions (init_model_fp f) = map Some (unique ?labels)"
    using labels_present [OF assms]
    by (simp add: agent_fields(2) present_labels_def unique_map_Some)
  have priors: "agent_prior_probs (init_model_fp f) =
      map (\<lambda>c. (c, ?g c)) (agent_conditions (init_model_fp f))"
    by (simp add: agent_fields(3) calculate_prior_probs_fp_def Let_def conds comp_def)
  have "prior_of (init_model_fp f) c = ?g c" if "c \<in> set (agent_conditions (init_model_fp f))" for c
    using that by (simp add: prior_of_def dict_get_def priors map_of_keyed)
  then have "map (\<lambda>c. (c, ?g c)) (agent_conditions (init_model_fp f)) =
             map (\<lambda>c. (c, prior_of (init_model_fp f) c)) (agent_conditions (init_model_fp f))"
    by simp
  with priors show ?thesis by simp
qed

lemma score_loop_fp_fold:
  "\<forall>c \<in> set cs. condition_score_fp m observed c = Inr (g c) \<Longrightarrow>
   score_loop_fp m observed cs acc = Inr (foldl (\<lambda>d c. AList.update c (g c) d) acc cs)"
  by (induction cs arbitrary: acc) simp_all

lemma agent_score_loop:
  assumes "None \<notin> snd ` set (records f)"
  shows "score_loop_fp (init_model_fp f) [] (agent_conditions (init_model_fp f)) [] =
         Inr (map (\<lambda>c. (c, prior_of (init_model_fp f) c)) (agent_conditions (init_model_fp f)))"
proof -
  let ?m = "init_model_fp f"
  have d: "distinct (agent_conditions ?m)"
    by (simp add: agent_fields(2) distinct_unique)
  have "\<forall>c \<in> set (agent_conditions ?m). condition_score_fp ?m [] c = Inr (prior_of ?m c)"
    unfolding condition_score_fp_def
    by (subst agent_priors_keyed [OF assms]) (simp add: dict_lookup_def map_of_keyed)
  then have "score_loop_fp ?m [] (agent_conditions ?m) [] =
      Inr (foldl (\<lambda>d c. AList.update c (prior_of ?m c) d) [] (agent_conditions ?m))"
    by (rule score_loop_fp_fold)
  with fold_update_distinct [OF d, of "prior_of ?m"] show ?thesis by simp
qed

text \<open>
  Claim C2, as the code has it. On a frame whose records all have their label,
  \<open>infer_condition\<close> without observations returns for every condition its prior
  divided by the total of the priors, as the built-in \<open>sum\<close> adds them up in double
  precision (and the uniform value when that total is zero). The total need not be
  exactly 1, and then the result is not the prior.
\<close>

theorem infer_condition_fp_no_observations:
  assumes "None \<notin> snd ` set (records f)"
  shows "infer_condition_fp py_sum (init_model_fp f) [] =
     Inr (if py_sum (map (prior_of (init_model_fp f)) (agent_conditions (init_model_fp f))) = Some 0
          then dict_comp
                 (\<lambda>c. fdiv (Some 1) (Some (real (length (agent_conditions (init_model_fp f))))))
                 (agent_conditions (init_model_fp f))
          else map (\<lambda>c. (c, fdiv (prior_of (init_model_fp f) c)
                      (py_sum (map (prior_of (init_model_fp f))
                         (agent_conditions (init_model_fp f))))))
                 (agent_conditions (init_model_fp f)))"
  by (simp add: infer_condition_fp_def agent_score_loop [OF assms] comp_def)

lemmas fp_infer = infer_condition_fp_def condition_score_fp_def dict_lookup_def dict_get_def
  dict_comp_def sum_in_order_def sum_compensated_def float_abs_ge_def prior_of_def

lemma skewed_agent:
  "init_model_fp skewed_frame =
     \<lparr>agent_symptoms = [], agent_conditions = [Some ''X'', Some ''Y'', Some ''Z''],
      agent_prior_probs =
        [(Some ''X'', Some (6141272219141585 / 9007199254740992)),
         (Some ''Y'', Some (1228254443828317 / 4503599627370496)),
         (Some ''Z'', Some (3275345183542179 / 72057594037927936))],
      agent_conditional_probs = [(Some ''X'', []), (Some ''Y'', []), (Some ''Z'', [])]\<rparr>"
  by (simp add: skewed_frame_def fp_build fp_arith)

theorem infer_condition_fp_no_observations_witness:
  "None \<notin> snd ` set (records skewed_frame) \<and>
   prior_of (init_model_fp skewed_frame) (Some ''X'') = Some (6141272219141585 / 9007199254740992) \<and>
   sum_in_order (map (prior_of (init_model_fp skewed_frame))
     (agent_conditions (init_model_fp skewed_frame))) = Some (9007199254740991 / 9007199254740992) \<and>
   infer_condition_fp sum_in_order (init_model_fp skewed_frame) [] =
     Inr [(Some ''X'', Some (3070636109570793 / 4503599627370496)),
          (Some ''Y'', Some (4913017775313269 / 18014398509481984)),
          (Some ''Z'', Some (6550690367084359 / 144115188075855872))]"
proof -
  have n: "None \<notin> snd ` set (records skewed_frame)"
    by (auto simp: skewed_frame_def)
  have p: "prior_of (init_model_fp skewed_frame) (Some ''X'') =
      Some (6141272219141585 / 9007199254740992)"
    by (simp add: skewed_agent prior_of_def dict_get_def)
  have t: "sum_in_order (map (prior_of (init_model_fp skewed_frame))
     (agent_conditions (init_model_fp skewed_frame))) = Some (9007199254740991 / 9007199254740992)"
    by (simp add: skewed_agent fp_infer fp_arith)
  have q: "map (\<lambda>c. (c, fdiv (prior_of (init_model_fp skewed_frame) c)
                      (Some (9007199254740991 / 9007199254740992))))
             (agent_conditions (init_model_fp skewed_frame)) =
     [(Some ''X'', Some (3070636109570793 / 4503599627370496)),
      (Some ''Y'', Some (4913017775313269 / 18014398509481984)),
      (Some ''Z'', Some (6550690367084359 / 144115188075855872))]"
    by (simp add: skewed_agent fp_infer fp_arith)
  show ?thesis
    using infer_condition_fp_no_observations [OF n, of sum_in_order] n p t q
    by simp
qed

text \<open>
  For 15, 6 and 1 records of three conditions the priors add up to \<open>1 - 2 ^ -53\<close>, in
  order as well as with compensation, and every quotient lies one bit above its prior.
\<close>

theorem posterior_differs_from_prior_counterexample:
  "agent_prior_probs (init_model_fp skewed_frame) =
     [(Some ''X'', Some (6141272219141585 / 9007199254740992)),
      (Some ''Y'', Some (1228254443828317 / 4503599627370496)),
      (Some ''Z'', Some (3275345183542179 / 72057594037927936))] \<and>
   infer_condition_fp sum_in_order (init_model_fp skewed_frame) [] =
     Inr [(Some ''X'', Some (3070636109570793 / 4503599627370496)),
          (Some ''Y'', Some (4913017775313269 / 18014398509481984)),
          (Some ''Z'', Some (6550690367084359 / 144115188075855872))] \<and>
   infer_condition_fp sum_compensated (init_model_fp skewed_frame) [] =
     Inr [(Some ''X'', Some (3070636109570793 / 4503599627370496)),
          (Some ''Y'', Some (4913017775313269 / 18014398509481984)),
          (Some ''Z'', Some (6550690367084359 / 144115188075855872))] \<and>
   (3070636109570793 / 4503599627370496 :: real) \<noteq> 6141272219141585 / 9007199254740992"
proof -
  have a: "infer_condition_fp sum_in_order (init_model_fp skewed_frame) [] =
     Inr [(Some ''X'', Some (3070636109570793 / 4503599627370496)),
          (Some ''Y'', Some (4913017775313269 / 18014398509481984)),
          (Some ''Z'', Some (6550690367084359 / 144115188075855872))]"
    by (simp add: skewed_agent fp_infer fp_arith)
  have b: "infer_condition_fp sum_compensated (init_model_fp skewed_frame) [] =
     Inr [(Some ''X'', Some (3070636109570793 / 4503599627370496)),
          (Some ''Y'', Some (4913017775313269 / 18014398509481984)),
          (Some ''Z'', Some (6550690367084359 / 144115188075855872))]"
    by (simp add: skewed_agent fp_infer fp_arith)
  from a b show ?thesis
    by (simp add: skewed_agent)
qed

section \<open>Sums of numbers are numbers\<close>

lemma float_op_number: "a \<noteq> None \<Longrightarrow> b \<noteq> None \<Longrightarrow> float_op f a b \<noteq> None"
  by (auto simp: float_op_def)

lemma fadd_number: "a \<noteq> None \<Longrightarrow> b \<noteq> None \<Longrightarrow> fadd a b \<noteq> None"
  by (simp add: fadd_def float_op_number)

lemma fsub_number: "a \<noteq> None \<Longrightarrow> b \<noteq> None \<Longrightarrow> fsub a b \<noteq> None"
  by (simp add: fsub_def float_op_number)

lemma fsquare_number: "a \<noteq> None \<Longrightarrow> fsquare a \<noteq> None"
  by (simp add: fsquare_def fmul_def float_op_number)

lemma fdiv_number: "a \<noteq> None \<Longrightarrow> 0 < n \<Longrightarrow> fdiv a (Some (real n)) \<noteq> None"
  by (simp add: fdiv_def float_op_number)

lemma foldl_fadd_number:
  "a \<noteq> None \<Longrightarrow> None \<notin> set xs \<Longrightarrow> foldl fadd a xs \<noteq> None"
proof (induction xs arbitrary: a)
  case Nil
  then show ?case by simp
next
  case (Cons x xs)
  from Cons.prems have "x \<noteq> None" by (cases x) auto
  with Cons.prems(1) have "fadd a x \<noteq> None" by (rule fadd_number)
  moreover from Cons.prems have "None \<notin> set xs" by simp
  ultimately have "foldl fadd (fadd a x) xs \<noteq> None" by (rule Cons.IH)
  then show ?case by simp
qed

lemma map2_fadd_number:
  assumes "None \<notin> set r" and "None \<notin> set ys"
  shows "None \<notin> set (map2 fadd r ys)"
proof
  assume "None \<in> set (map2 fadd r ys)"
  then obtain a b where "(a, b) \<in> set (zip r ys)" and eq: "fadd a b = None"
    by (auto simp: image_iff)
  then have "a \<in> set r" and "b \<in> set ys"
    by (auto dest: set_zip_leftD set_zip_rightD)
  with assms have "a \<noteq> None" and "b \<noteq> None" by metis+
  then have "fadd a b \<noteq> None" by (rule fadd_number)
  with eq show False by simp
qed

lemma add_lanes_number:
  "length r = 8 \<Longrightarrow> None \<notin> set r \<Longrightarrow> None \<notin> set xs \<Longrightarrow>
   length (add_lanes r xs) = 8 \<and> None \<notin> set (add_lanes r xs)"
proof (induction r xs rule: add_lanes.induct)
  case (1 r xs)
  show ?case
  proof (cases "length xs < 8")
    case True
    with "1.prems" show ?thesis
      by (subst (1 2) add_lanes.simps) simp
  next
    case False
    have len: "length (map2 fadd r (take 8 xs)) = 8"
      using False "1.prems"(1) by simp
    have "None \<notin> set (take 8 xs)"
      using "1.prems"(3) by (auto dest: in_set_takeD)
    with "1.prems"(2) have num: "None \<notin> set (map2 fadd r (take 8 xs))"
      by (rule map2_fadd_number)
    have rest: "None \<notin> set (drop 8 xs)"
      using "1.prems"(3) by (auto dest: in_set_dropD)
    from "1.IH" [OF False len num rest] False show ?thesis
      by (subst (1 2) add_lanes.simps) simp
  qed
qed

lemma block_sum_number:
  assumes "8 \<le> length a" and "None \<notin> set a"
  shows "block_sum a \<noteq> None"
proof -
  let ?n = "length a"
  let ?r = "add_lanes (take 8 a) (take (?n - ?n mod 8 - 8) (drop 8 a))"
  have "length (take 8 a) = 8"
    using assms(1) by simp
  moreover have "None \<notin> set (take 8 a)"
    using assms(2) by (auto dest: in_set_takeD)
  moreover have "None \<notin> set (take (?n - ?n mod 8 - 8) (drop 8 a))"
    using assms(2) by (auto dest: in_set_takeD in_set_dropD)
  ultimately have r: "length ?r = 8 \<and> None \<notin> set ?r"
    by (rule add_lanes_number)
  have lane: "?r ! i \<noteq> None" if "i < 8" for i
  proof -
    from that r have "?r ! i \<in> set ?r" by simp
    with r show ?thesis by metis
  qed
  have "fadd (fadd (fadd (?r ! 0) (?r ! 1)) (fadd (?r ! 2) (?r ! 3)))
             (fadd (fadd (?r ! 4) (?r ! 5)) (fadd (?r ! 6) (?r ! 7))) \<noteq> None"
    by (intro fadd_number lane) simp_all
  moreover have "None \<notin> set (drop (?n - ?n mod 8) a)"
    using assms(2) by (auto dest: in_set_dropD)
  ultimately show ?thesis
    unfolding block_sum_def Let_def by (rule foldl_fadd_number)
qed

lemma pairwise_sum_number: "None \<notin> set a \<Longrightarrow> pairwise_sum a \<noteq> None"
proof (induction a rule: pairwise_sum.induct)
  case (1 a)
  consider "length a < 8" | "8 \<le> length a" "length a \<le> 128" | "128 < length a"
    by linarith
  then show ?case
  proof cases
    case 1
    with "1.prems" show ?thesis
      by (subst pairwise_sum.simps) (simp add: foldl_fadd_number)
  next
    case 2
    with "1.prems" show ?thesis
      by (subst pairwise_sum.simps) (simp add: block_sum_number)
  next
    case 3
    let ?n2 = "length a div 2 - (length a div 2) mod 8"
    from 3 have c: "\<not> length a < 8" "\<not> length a \<le> 128" by simp_all
    have "None \<notin> set (take ?n2 a)"
      using "1.prems" by (auto dest: in_set_takeD)
    from "1.IH"(1) [OF c refl this] have l: "pairwise_sum (take ?n2 a) \<noteq> None" .
    have "None \<notin> set (drop ?n2 a)"
      using "1.prems" by (auto dest: in_set_dropD)
    from "1.IH"(2) [OF c refl this] have r: "pairwise_sum (drop ?n2 a) \<noteq> None" .
    from l r have "fadd (pairwise_sum (take ?n2 a)) (pairwise_sum (drop ?n2 a)) \<noteq> None"
      by (rule fadd_number)
    with c show ?thesis
      by (subst pairwise_sum.simps) (simp add: Let_def)
  qed
qed

lemma np_mean_number: "xs \<noteq> [] \<Longrightarrow> None \<notin> set xs \<Longrightarrow> np_mean xs \<noteq> None"
  by (simp add: np_mean_def fdiv_number pairwise_sum_number)

lemma np_var_fp_number:
  assumes "xs \<noteq> []" and "None \<notin> set xs"
  shows "np_var_fp xs \<noteq> None"
proof -
  have m: "np_mean xs \<noteq> None"
    using assms by (rule np_mean_number)
  have "None \<notin> set (map fsquare (map (\<lambda>a. fsub a (np_mean xs)) xs))"
  proof
    assume "None \<in> set (map fsquare (map (\<lambda>a. fsub a (np_mean xs)) xs))"
    then obtain a where "a \<in> set xs" and eq: "fsquare (fsub a (np_mean xs)) = None"
      by auto
    with assms(2) have "a \<noteq> None" by (cases a) auto
    with m have "fsquare (fsub a (np_mean xs)) \<noteq> None"
      by (intro fsquare_number fsub_number)
    with eq show False by simp
  qed
  moreover have "map fsquare (map (\<lambda>a. fsub a (np_mean xs)) xs) \<noteq> []"
    using assms(1) by simp
  ultimately show ?thesis
    unfolding np_var_fp_def by (intro np_mean_number)
qed

section \<open>The selector in double precision\<close>

lemma condition_table_fp_number:
  assumes "condition_data \<noteq> []" and "kv \<in> set (condition_table_fp syms condition_data)"
  shows "snd kv \<noteq> None"
proof -
  let ?vals = "map (\<lambda>x. fdiv (Some (real_of_int x)) (Some (real (length condition_data))))
                 (cell_sums (length syms) (map fst condition_data))"
  from assms(2) set_to_dict_subset have "(fst kv, snd kv) \<in> set (zip syms ?vals)"
    unfolding condition_table_fp_def by fastforce
  then have "snd kv \<in> set ?vals"
    by (rule set_zip_rightD)
  then obtain x where "snd kv = fdiv (Some (real_of_int x)) (Some (real (length condition_data)))"
    by auto
  moreover have "0 < length condition_data"
    using assms(1) by simp
  ultimately show ?thesis
    by (simp add: fdiv_number)
qed

lemma agent_table:
  assumes "c \<in> set (agent_conditions (init_model_fp f))"
  shows "map_of (agent_conditional_probs (init_model_fp f)) c =
         Some (condition_table_fp (symptom_columns f)
                 (filter (\<lambda>r. label_eq (snd r) c) (records f)))"
  using assms by (subst agent_fields(4)) (rule map_of_keyed)

lemma symptom_column_number:
  assumes "None \<notin> snd ` set (records f)"
  shows "None \<notin> set (symptom_column (init_model_fp f) s)"
proof
  let ?m = "init_model_fp f"
  assume "None \<in> set (symptom_column ?m s)"
  then obtain c where c: "c \<in> set (agent_conditions ?m)"
    and eq: "(case map_of (agent_conditional_probs ?m) c of
                None \<Rightarrow> Some 0 | Some t \<Rightarrow> dict_get t s (Some 0)) = None"
    by (auto simp: symptom_column_def)
  let ?data = "filter (\<lambda>r. label_eq (snd r) c) (records f)"
  let ?t = "condition_table_fp (symptom_columns f) ?data"
  from c have label: "c \<in> snd ` set (records f)"
    by (simp add: agent_fields(2) set_unique)
  then obtain r where r: "r \<in> set (records f)" "snd r = c" by auto
  from label assms have "c \<noteq> None" by metis
  then obtain l where "c = Some l" by (cases c) auto
  with r have "label_eq (snd r) c" by (simp add: label_eq_def)
  with r(1) have data: "?data \<noteq> []" by (auto simp: filter_empty_conv)
  from eq agent_table [OF c] have none: "dict_get ?t s (Some 0) = None" by simp
  then obtain v where "map_of ?t s = Some v" and "v = None"
    by (cases "map_of ?t s") (auto simp: dict_get_def)
  then have "(s, None) \<in> set ?t" by (auto dest: map_of_SomeD)
  from condition_table_fp_number [OF data this] show False by simp
qed

lemma column_loop_fp_complete:
  "\<forall>c \<in> set cs. map_of (agent_conditional_probs m) c \<noteq> None \<Longrightarrow>
   column_loop_fp m s cs =
     Inr (map (\<lambda>c. case map_of (agent_conditional_probs m) c of
                       None \<Rightarrow> Some 0 | Some t \<Rightarrow> dict_get t s (Some 0)) cs)"
  by (induction cs) (auto simp: dict_lookup_def split: option.splits)

lemma variance_loop_fp_complete:
  assumes "\<forall>c \<in> set (agent_conditions m). map_of (agent_conditional_probs m) c \<noteq> None"
  shows "variance_loop_fp m xs acc =
     Inr (foldl (\<lambda>d s. AList.update s (computed_variance m s) d) acc xs)"
proof (induction xs arbitrary: acc)
  case Nil
  then show ?case by simp
next
  case (Cons x xs)
  have "column_loop_fp m x (agent_conditions m) = Inr (symptom_column m x)"
    unfolding symptom_column_def by (rule column_loop_fp_complete) (rule assms)
  with Cons show ?case
    by (simp add: computed_variance_def)
qed

text \<open>
  Claim C4, as the code has it. On a frame with at least one record, whose records all
  have their label, and with some symptom not yet asked, \<open>select_next_question\<close>
  returns an unasked symptom whose variance, as \<open>numpy.var\<close> computes it in double
  precision, no unasked symptom exceeds; every unasked symptom in front of it in the
  column order has a strictly smaller computed variance. All computed variances are
  numbers.
\<close>

theorem select_next_question_fp_first_max:
  assumes "records f \<noteq> []" and "None \<notin> snd ` set (records f)"
    and "\<not> set (symptom_columns f) \<subseteq> asked"
  shows "\<exists>s v. select_next_question_fp (init_model_fp f) asked = Inr (Some s) \<and>
           s \<in> set (symptom_columns f) \<and> s \<notin> asked \<and>
           (\<forall>t \<in> set (symptom_columns f). computed_variance (init_model_fp f) t = Some (v t)) \<and>
           (\<forall>t \<in> set (symptom_columns f). t \<notin> asked \<longrightarrow> v t \<le> v s) \<and>
           (\<forall>t \<in> set (takeWhile (\<lambda>x. x \<noteq> s) (symptom_columns f)).
              t \<notin> asked \<longrightarrow> v t < v s)"
proof -
  let ?m = "init_model_fp f"
  let ?rem = "filter (\<lambda>symptom. symptom \<notin> asked) (symptom_columns f)"
  define v where "v t = (case computed_variance ?m t of None \<Rightarrow> 0 | Some x \<Rightarrow> x)" for t
  let ?h = "\<lambda>k. (k, Some (v k))"
  have "set (agent_conditions ?m) \<noteq> {}"
    using assms(1) by (simp add: agent_fields(2) set_unique)
  then have conds: "agent_conditions ?m \<noteq> []" by auto
  have var: "computed_variance ?m t = Some (v t)" for t
  proof -
    have "symptom_column ?m t \<noteq> []"
      using conds by (simp add: symptom_column_def)
    then have "np_var_fp (symptom_column ?m t) \<noteq> None"
      using symptom_column_number [OF assms(2)] by (rule np_var_fp_number)
    then show ?thesis
      by (auto simp: v_def computed_variance_def)
  qed
  have complete: "\<forall>c \<in> set (agent_conditions ?m). map_of (agent_conditional_probs ?m) c \<noteq> None"
    by (simp add: agent_table)
  have rem: "?rem \<noteq> []"
    using assms(3) by (auto simp: filter_empty_conv)
  have rem_set: "set ?rem \<noteq> {}"
    using assms(3) by auto
  have "variance_loop_fp ?m ?rem [] = Inr (foldl (\<lambda>d s. AList.update s (Some (v s)) d) [] ?rem)"
    by (simp add: variance_loop_fp_complete [OF complete] var)
  also have "foldl (\<lambda>d s. AList.update s (Some (v s)) d) [] ?rem = map ?h (unique ?rem)"
    using fold_update_keyed [of "\<lambda>s. Some (v s)" "[]" ?rem] by (simp add: unique_def)
  finally have loop: "variance_loop_fp ?m ?rem [] = Inr (map ?h (unique ?rem))" .
  from rem_set have "set (unique ?rem) \<noteq> {}"
    by (simp add: set_unique)
  then have "unique ?rem \<noteq> []"
    by auto
  then obtain u us where u: "unique ?rem = u # us"
    by (cases "unique ?rem") auto
  have "\<exists>r pre post. [] @ u # [] @ us = pre @ r # post \<and> max_loop (?h u) (map ?h us) = ?h r \<and>
           (\<forall>t \<in> set pre. v t < v r) \<and> (\<forall>t \<in> set post. v t \<le> v r)"
    by (rule max_loop_first_max) simp_all
  then obtain r pre post where r: "u # us = pre @ r # post" "max_loop (?h u) (map ?h us) = ?h r"
    "\<forall>t \<in> set pre. v t < v r" "\<forall>t \<in> set post. v t \<le> v r"
    by auto
  have sel: "select_next_question_fp ?m asked = Inr (Some r)"
    using rem loop u r(2)
    by (simp add: select_next_question_fp_def py_max_key_def agent_fields(1))
  have dec: "unique ?rem = pre @ r # post"
    using u r(1) by simp
  have mem: "r \<in> set ?rem"
    using set_unique [of ?rem] dec by auto
  have le: "v t \<le> v r" if "t \<in> set (symptom_columns f)" "t \<notin> asked" for t
  proof -
    from that have "t \<in> set (unique ?rem)" by (simp add: set_unique)
    then show ?thesis using dec r(3,4) by auto
  qed
  have lt: "v t < v r"
    if "t \<in> set (takeWhile (\<lambda>x. x \<noteq> r) (symptom_columns f))" "t \<notin> asked" for t
  proof -
    from that have "t \<in> set (filter (\<lambda>symptom. symptom \<notin> asked)
        (takeWhile (\<lambda>x. x \<noteq> r) (symptom_columns f)))"
      by simp
    then have "t \<in> set (takeWhile (\<lambda>x. x \<noteq> r) ?rem)"
      using takeWhile_filter_subset by fastforce
    then have "t \<in> set (takeWhile (\<lambda>x. x \<noteq> r) (unique ?rem))"
      using takeWhile_unique_from_subset [of r ?rem "[]"] by (auto simp: unique_def)
    moreover have "r \<notin> set pre"
      using distinct_unique [of ?rem] dec by auto
    then have "takeWhile (\<lambda>x. x \<noteq> r) (pre @ r # post) = pre"
      by (rule takeWhile_split_first)
    ultimately show ?thesis using dec r(3) by simp
  qed
  from sel mem le lt var show ?thesis by auto
qed

lemmas fp_select = select_next_question_fp_def py_max_key_def float_gt_def dict_lookup_def
  dict_get_def symptom_column_def computed_variance_def

lemma permuted_agent:
  "init_model_fp permuted_frame =
     \<lparr>agent_symptoms = [''A'', ''B''],
      agent_conditions = [Some ''X'', Some ''Y'', Some ''Z''],
      agent_prior_probs =
        [(Some ''X'', Some (2573485501354569 / 18014398509481984)),
         (Some ''Y'', Some (7720456504063707 / 18014398509481984)),
         (Some ''Z'', Some (7720456504063707 / 18014398509481984))],
      agent_conditional_probs =
        [(Some ''X'', [(''A'', Some 0), (''B'', Some 1)]),
         (Some ''Y'', [(''A'', Some (6004799503160661 / 9007199254740992)), (''B'', Some 0)]),
         (Some ''Z'', [(''A'', Some 1), (''B'', Some (6004799503160661 / 9007199254740992))])]\<rparr>"
  by (simp add: permuted_frame_def fp_build fp_arith)

lemma permuted_variance_A:
  "np_var_fp [Some 0, Some (6004799503160661 / 9007199254740992), Some 1] =
   Some (1556799871189801 / 9007199254740992)"
  by (simp add: np_var_fp_def np_mean_def fsquare_def pairwise_sum.simps fp_arith)

lemma permuted_variance_B:
  "np_var_fp [Some 1, Some 0, Some (6004799503160661 / 9007199254740992)] =
   Some (6227199484759205 / 36028797018963968)"
  by (simp add: np_var_fp_def np_mean_def fsquare_def pairwise_sum.simps fp_arith)

lemma permuted_select:
  "select_next_question_fp (init_model_fp permuted_frame) {} = Inr (Some ''B'')"
  by (simp add: permuted_agent fp_select permuted_variance_A permuted_variance_B)

theorem select_next_question_fp_first_max_witness:
  "records permuted_frame \<noteq> [] \<and> None \<notin> snd ` set (records permuted_frame) \<and>
   \<not> set (symptom_columns permuted_frame) \<subseteq> {} \<and>
   select_next_question_fp (init_model_fp permuted_frame) {} = Inr (Some ''B'') \<and>
   computed_variance (init_model_fp permuted_frame) ''A'' =
     Some (1556799871189801 / 9007199254740992) \<and>
   computed_variance (init_model_fp permuted_frame) ''B'' =
     Some (6227199484759205 / 36028797018963968) \<and>
   (1556799871189801 / 9007199254740992 :: real) < 6227199484759205 / 36028797018963968"
proof -
  have r: "records permuted_frame \<noteq> []"
    by (simp add: permuted_frame_def)
  have n: "None \<notin> snd ` set (records permuted_frame)"
    by (auto simp: permuted_frame_def)
  have a: "\<not> set (symptom_columns permuted_frame) \<subseteq> {}"
    by (simp add: permuted_frame_def)
  have va: "computed_variance (init_model_fp permuted_frame) ''A'' =
     Some (1556799871189801 / 9007199254740992)"
    by (simp add: permuted_agent fp_select permuted_variance_A)
  have vb: "computed_variance (init_model_fp permuted_frame) ''B'' =
     Some (6227199484759205 / 36028797018963968)"
    by (simp add: permuted_agent fp_select permuted_variance_B)
  show ?thesis
    using select_next_question_fp_first_max [OF r n a] r n a permuted_select va vb
    by simp
qed

text \<open>
  The columns of A and B hold the same three values in another order, so their
  population variances are equal and A is the first of the two; the computed variance
  of B is one bit larger and B is returned.
\<close>

theorem equal_variance_second_chosen_counterexample:
  "agent_symptoms (init_model_fp permuted_frame) = [''A'', ''B''] \<and>
   symptom_column (init_model_fp permuted_frame) ''A'' =
     [Some 0, Some (6004799503160661 / 9007199254740992), Some 1] \<and>
   symptom_column (init_model_fp permuted_frame) ''B'' =
     [Some 1, Some 0, Some (6004799503160661 / 9007199254740992)] \<and>
   population_variance [0, 6004799503160661 / 9007199254740992, 1] =
     population_variance [1, 0, 6004799503160661 / 9007199254740992] \<and>
   select_next_question_fp (init_model_fp permuted_frame) {} = Inr (Some ''B'')"
proof -
  have "population_variance [0, 6004799503160661 / 9007199254740992, 1] =
     population_variance [1, 0, 6004799503160661 / 9007199254740992]"
    by (simp add: population_variance_def Let_def power2_eq_square)
  with permuted_select show ?thesis
    by (simp add: permuted_agent fp_select)
qed

end
